theory Spec2Isabelle
  imports Complex_Main "HOL-Library.Sublist"
begin

section \<open>Data model of \<open>src/lib/inprod/types.ts\<close>\<close>

text \<open>
  The union type \<open>Category\<close> of string literals is a datatype with one constructor per
  literal; \<open>CATEGORIES\<close> is the array of lines 19--32, in its source order.
\<close>

datatype Category =
    Frontend
  | Backend
  | Database
  | Authentication
  | ApiIntegrations
  | StateManagement
  | DesignUx
  | Testing
  | Security
  | ErrorHandling
  | VersionControl
  | Deployment

definition CATEGORIES :: "Category list" where
  "CATEGORIES =
     [Frontend, Backend, Database, Authentication, ApiIntegrations, StateManagement,
      DesignUx, Testing, Security, ErrorHandling, VersionControl, Deployment]"

text \<open>
  Position of a category in \<open>CATEGORIES\<close> (the fixed declaration order), computed by a
  scan of the list as \<open>CATEGORIES.indexOf\<close> would.
\<close>

fun index_of :: "Category \<Rightarrow> Category list \<Rightarrow> nat" where
  "index_of c [] = 0"
| "index_of c (d # ds) = (if c = d then 0 else Suc (index_of c ds))"

definition decl_index :: "Category \<Rightarrow> nat" where
  "decl_index c = index_of c CATEGORIES"

text \<open>\<open>TechStack['platform']\<close>; the platform \<open>'backend'\<close> is \<open>PBackend\<close> here.\<close>

datatype Platform = PWeb | PIos | PAndroid | PBackend | PCli | PLibrary | PMonorepo

fun PLATFORM_CATEGORIES :: "Platform \<Rightarrow> Category list" where
  "PLATFORM_CATEGORIES PWeb =
     [Frontend, Backend, Database, Authentication, ApiIntegrations, StateManagement,
      DesignUx, Testing, Security, ErrorHandling, VersionControl, Deployment]"
| "PLATFORM_CATEGORIES PIos =
     [DesignUx, Testing, Security, ErrorHandling, VersionControl, Deployment, StateManagement]"
| "PLATFORM_CATEGORIES PAndroid =
     [DesignUx, Testing, Security, ErrorHandling, VersionControl, Deployment, StateManagement]"
| "PLATFORM_CATEGORIES PBackend =
     [Backend, Database, Authentication, ApiIntegrations, Testing, Security, ErrorHandling,
      VersionControl, Deployment]"
| "PLATFORM_CATEGORIES PCli =
     [Testing, Security, ErrorHandling, VersionControl, Deployment]"
| "PLATFORM_CATEGORIES PLibrary = [Testing, Security, VersionControl]"
| "PLATFORM_CATEGORIES PMonorepo =
     [Frontend, Backend, Database, Authentication, ApiIntegrations, StateManagement,
      DesignUx, Testing, Security, ErrorHandling, VersionControl, Deployment]"

datatype Severity = Blocker | Critical | Warning | Info

datatype Confidence = Proven | Verified | High | Likely | Possible

datatype FixType = Instant | Suggested | Guided

datatype MaturityLevel = Prototype | Mvp | Production

text \<open>
  Interface \<open>Gap\<close>. Optional fields are options. The fields \<open>id\<close>, \<open>category\<close>, \<open>file\<close>
  and \<open>line\<close> carry the prefix \<open>gap_\<close>: \<open>id\<close> is a HOL constant, \<open>file\<close> is a keyword
  and \<open>category\<close> is also a field of \<open>CategoryScore\<close>.
\<close>

record Gap =
  gap_id :: string
  gap_category :: Category
  title :: string
  description :: string
  severity :: Severity
  confidence :: Confidence
  gap_file :: "string option"
  gap_line :: "int option"
  fixType :: FixType
  fixTemplate :: "string option"
  effortMinutes :: "int option"

record CategoryScore =
  category :: Category
  label :: string
  score :: int
  detected :: "string list"
  gaps :: "Gap list"
  canGenerate :: bool

record TechStack =
  platform :: Platform
  languages :: "string list"
  frameworks :: "string list"
  packageManager :: "string option"
  database :: "string option"
  testFramework :: "string option"
  ciProvider :: "string option"
  deploymentPlatform :: "string option"
  maturityLevel :: MaturityLevel

record CompletenessAnalysis =
  repoUrl :: string
  techStack :: TechStack
  overallScore :: int
  categories :: "CategoryScore list"
  totalGaps :: int
  blockerCount :: int
  criticalCount :: int
  warningCount :: int
  estimatedFixMinutes :: int
  canAutoFix :: int


section \<open>The altitude calculation of \<open>src/docs/altitude-system.md\<close>\<close>

text \<open>
  \<open>CategoryResult\<close> (lines 119--125). The field \<open>fixes\<close> is only handed on to
  \<open>calculateNextLevel\<close>, whose code is not part of the document, and is left out together
  with \<open>toNextLevel\<close>. The category identifier is one of the twelve category strings.
  Scores, ceilings and user counts are whole numbers, modelled as \<open>int\<close>.
\<close>

record CategoryResult =
  res_category :: Category
  res_score :: int
  maxUsers :: int
  res_bottleneck :: bool

datatype AltitudeLevel =
    GROUNDED
  | HANGAR
  | RUNWAY
  | TAKEOFF
  | CLIMBING
  | CRUISING
  | STRATOSPHERE
  | KARMAN
  | ORBIT
  | GEOSTATIONARY
  | VOYAGER

datatype AltitudeUnit = Ft | Km

text \<open>The altitude value is a number that may be \<open>Infinity\<close>.\<close>

datatype AltitudeValue = Finite int | Infinity

record Altitude =
  alt_value :: AltitudeValue
  alt_level :: AltitudeLevel
  alt_unit :: AltitudeUnit

text \<open>\<open>usersToAltitude\<close> (lines 173--185), branch by branch.\<close>

definition usersToAltitude :: "int \<Rightarrow> Altitude" where
  "usersToAltitude users =
     (if users = 0 then \<lparr>alt_value = Finite 0, alt_level = GROUNDED, alt_unit = Ft\<rparr>
      else if users < 10 then \<lparr>alt_value = Finite 0, alt_level = HANGAR, alt_unit = Ft\<rparr>
      else if users < 100 then \<lparr>alt_value = Finite 0, alt_level = RUNWAY, alt_unit = Ft\<rparr>
      else if users < 1000 then \<lparr>alt_value = Finite 1000, alt_level = TAKEOFF, alt_unit = Ft\<rparr>
      else if users < 10000 then \<lparr>alt_value = Finite 10000, alt_level = CLIMBING, alt_unit = Ft\<rparr>
      else if users < 100000 then \<lparr>alt_value = Finite 35000, alt_level = CRUISING, alt_unit = Ft\<rparr>
      else if users < 1000000 then
        \<lparr>alt_value = Finite 50000, alt_level = STRATOSPHERE, alt_unit = Ft\<rparr>
      else if users < 10000000 then \<lparr>alt_value = Finite 100, alt_level = KARMAN, alt_unit = Km\<rparr>
      else if users < 100000000 then \<lparr>alt_value = Finite 400, alt_level = ORBIT, alt_unit = Km\<rparr>
      else if users < 1000000000 then
        \<lparr>alt_value = Finite 36000, alt_level = GEOSTATIONARY, alt_unit = Km\<rparr>
      else \<lparr>alt_value = Infinity, alt_level = VOYAGER, alt_unit = Km\<rparr>)"

text \<open>
  \<open>[...categories].sort((a, b) => a.maxUsers - b.maxUsers)\<close>: \<open>Array.prototype.sort\<close> is
  stable, so the result is the stable ascending arrangement by \<open>maxUsers\<close>; it is computed
  here by insertion from the right, where an element goes in front of the first element
  that the comparator does not put before it.
\<close>

fun insert_by_maxUsers :: "CategoryResult \<Rightarrow> CategoryResult list \<Rightarrow> CategoryResult list" where
  "insert_by_maxUsers a [] = [a]"
| "insert_by_maxUsers a (b # bs) =
     (if maxUsers a - maxUsers b \<le> 0 then a # b # bs else b # insert_by_maxUsers a bs)"

fun sort_by_maxUsers :: "CategoryResult list \<Rightarrow> CategoryResult list" where
  "sort_by_maxUsers [] = []"
| "sort_by_maxUsers (c # cs) = insert_by_maxUsers c (sort_by_maxUsers cs)"

text \<open>
  JavaScript numbers are IEEE doubles. Whole numbers of magnitude up to \<open>2^53\<close> are doubles
  and are added, subtracted and compared exactly, so they stay \<open>int\<close>. A division or a
  multiplication returns the exact result rounded to a double. The rounding is the
  parameter \<open>rnd\<close> of the functions below, a function on the rationals, and
  \<open>double_rounding\<close> collects what is used of it: it is monotone, it leaves whole numbers
  up to \<open>2^53\<close> as they are, and its relative error is at most \<open>2^-53\<close> (rounding to
  nearest, away from underflow and overflow). The identity, which is exact arithmetic, is
  one such rounding.
\<close>

definition double_rounding :: "(rat \<Rightarrow> rat) \<Rightarrow> bool" where
  "double_rounding rnd \<longleftrightarrow>
     (\<forall>x y. x \<le> y \<longrightarrow> rnd x \<le> rnd y) \<and>
     (\<forall>k::int. \<bar>k\<bar> \<le> 2 ^ 53 \<longrightarrow> rnd (of_int k) = of_int k) \<and>
     (\<forall>x. \<bar>rnd x - x\<bar> \<le> \<bar>x\<bar> / 2 ^ 53)"

text \<open>
  \<open>categories.reduce((sum, c) => sum + c.score, 0) / categories.length\<close> (line 151) and
  \<open>avgScore / 100\<close> (line 154). Both are only reached for a non-empty array.
\<close>

definition avgScore :: "(rat \<Rightarrow> rat) \<Rightarrow> CategoryResult list \<Rightarrow> rat" where
  "avgScore rnd cs =
     rnd (of_int (foldl (\<lambda>sum c. sum + res_score c) 0 cs) / of_nat (length cs))"

definition healthMultiplier :: "(rat \<Rightarrow> rat) \<Rightarrow> CategoryResult list \<Rightarrow> rat" where
  "healthMultiplier rnd cs = rnd (avgScore rnd cs / 100)"

record AltitudeReport =
  currentAltitude :: AltitudeValue
  altitudeLevel :: AltitudeLevel
  maxConcurrentUsers :: int
  bottleneck :: CategoryResult
  report_categories :: "CategoryResult list"

datatype js_error = TypeError

text \<open>
  \<open>calculateAltitude\<close> (lines 142--171). On an empty array \<open>sorted[0]\<close> is \<open>undefined\<close> and
  reading \<open>bottleneck.maxUsers\<close> throws a \<open>TypeError\<close>.
\<close>

definition calculateAltitude ::
  "(rat \<Rightarrow> rat) \<Rightarrow> CategoryResult list \<Rightarrow> js_error + AltitudeReport" where
  "calculateAltitude rnd cs =
     (case sort_by_maxUsers cs of
        [] \<Rightarrow> Inl TypeError
      | b # _ \<Rightarrow>
          (let maxConcurrent = maxUsers b;
               effectiveUsers = \<lfloor>rnd (of_int maxConcurrent * healthMultiplier rnd cs)\<rfloor>;
               altitude = usersToAltitude effectiveUsers
           in Inr \<lparr>currentAltitude = alt_value altitude,
                   altitudeLevel = alt_level altitude,
                   maxConcurrentUsers = effectiveUsers,
                   bottleneck = b\<lparr>res_bottleneck := True\<rparr>,
                   report_categories =
                     map (\<lambda>c. c\<lparr>res_bottleneck := (res_category c = res_category b)\<rparr>) cs\<rparr>))"

text \<open>
  The altitude scale of the document (table of lines 9--21): the \<open>Users\<close> column with the
  level of each row, in the order of the rows.
\<close>

definition ALTITUDE_SCALE :: "(int \<times> AltitudeLevel) list" where
  "ALTITUDE_SCALE =
     [(0, GROUNDED), (1, HANGAR), (10, RUNWAY), (100, TAKEOFF), (1000, CLIMBING),
      (10000, CRUISING), (100000, STRATOSPHERE), (1000000, KARMAN), (10000000, ORBIT),
      (100000000, GEOSTATIONARY), (1000000000, VOYAGER)]"

text \<open>
  The selection rule "the highest breakpoint that is at most the number of users" over a
  table of breakpoints; \<open>None\<close> when no breakpoint qualifies.
\<close>

fun highest_breakpoint :: "int list \<Rightarrow> int \<Rightarrow> int option" where
  "highest_breakpoint [] u = None"
| "highest_breakpoint (b # bs) u =
     (case highest_breakpoint bs u of
        None \<Rightarrow> (if b \<le> u then Some b else None)
      | Some h \<Rightarrow> (if b \<le> u \<and> h < b then Some b else Some h))"

text \<open>The breakpoint table as the specification words it: ten entries, without 1.\<close>

definition spec_breakpoints :: "int list" where
  "spec_breakpoints =
     [0, 10, 100, 1000, 10000, 100000, 1000000, 10000000, 100000000, 1000000000]"

text \<open>
  The aggregate as the specification words it: the overall score is the rounded mean of
  the scores clamped to the range 0 to 100, and the effective users are the floor of the
  ceiling times the overall score over 100.
\<close>

definition overallScore_spec :: "int list \<Rightarrow> int" where
  "overallScore_spec scores =
     max 0 (min 100 (round (of_int (sum_list scores) / of_nat (length scores) :: rat)))"

definition effectiveUsers_spec :: "int \<Rightarrow> int \<Rightarrow> int" where
  "effectiveUsers_spec ceil overall = \<lfloor>of_int ceil * of_int overall / (100 :: rat)\<rfloor>"

text \<open>
  Column "Max Users If Perfect" of the table of category altitude limits (lines 45--58):
  the ceiling of the highest score tier of each category.
\<close>

fun maxUsersIfPerfect :: "Category \<Rightarrow> int" where
  "maxUsersIfPerfect Database = 10000000"
| "maxUsersIfPerfect Backend = 5000000"
| "maxUsersIfPerfect Deployment = 1000000"
| "maxUsersIfPerfect Security = 500000"
| "maxUsersIfPerfect ErrorHandling = 500000"
| "maxUsersIfPerfect Authentication = 200000"
| "maxUsersIfPerfect ApiIntegrations = 100000"
| "maxUsersIfPerfect StateManagement = 100000"
| "maxUsersIfPerfect Testing = 50000"
| "maxUsersIfPerfect VersionControl = 50000"
| "maxUsersIfPerfect DesignUx = 20000"
| "maxUsersIfPerfect Frontend = 10000"

text \<open>A category result with score 100 and the ceiling of its highest tier.\<close>

definition perfect_result :: "Category \<Rightarrow> CategoryResult" where
  "perfect_result c =
     \<lparr>res_category = c, res_score = 100, maxUsers = maxUsersIfPerfect c, res_bottleneck = False\<rparr>"

text \<open>A category result from its three inputs, for concrete examples.\<close>

definition result_of :: "Category \<Rightarrow> int \<Rightarrow> int \<Rightarrow> CategoryResult" where
  "result_of c s m = \<lparr>res_category = c, res_score = s, maxUsers = m, res_bottleneck = False\<rparr>"


section \<open>Gap selection and grouping of \<open>src/app/api/generate/route.ts\<close>\<close>

text \<open>
  The fields of \<open>GenerateRequest\<close> that the selection reads. An optional field is an
  option; \<open>repoUrl\<close> and \<open>files\<close> only feed the retrieval of the files and the analysis,
  which happen before the selection.
\<close>

record GenerateRequest =
  req_categories :: "Category list option"
  gapsToFix :: "string list option"
  instantOnly :: "bool option"

text \<open>\<open>xs && xs.length > 0\<close> on an optional array, and the array itself once that holds.\<close>

definition present_nonempty :: "'a list option \<Rightarrow> bool" where
  "present_nonempty xs = (case xs of None \<Rightarrow> False | Some ys \<Rightarrow> 0 < length ys)"

definition items :: "'a list option \<Rightarrow> 'a list" where
  "items xs = (case xs of None \<Rightarrow> [] | Some ys \<Rightarrow> ys)"

text \<open>
  Modelled from the spec: \<open>getInstantFixGaps\<close> is imported from the analyzer module, which
  is not among the sources. The specification calls a gap whose \<open>fixType\<close> is \<open>instant\<close>
  an instant-fix gap and counts them over all categories' gap lists.
\<close>

definition getInstantFixGaps :: "CompletenessAnalysis \<Rightarrow> Gap list" where
  "getInstantFixGaps analysis =
     filter (\<lambda>g. fixType g = Instant) (concat (map gaps (categories analysis)))"

text \<open>The choice of \<open>targetGaps\<close> in \<open>POST\<close> (lines 39--58), branch by branch.\<close>

definition targetGaps :: "CompletenessAnalysis \<Rightarrow> GenerateRequest \<Rightarrow> Gap list" where
  "targetGaps analysis body =
     (if present_nonempty (gapsToFix body) then
        filter (\<lambda>g. gap_id g \<in> set (items (gapsToFix body)))
          (concat (map gaps (categories analysis)))
      else if instantOnly body = Some True then getInstantFixGaps analysis
      else if present_nonempty (req_categories body) then
        concat (map gaps
          (filter (\<lambda>c. category c \<in> set (items (req_categories body))) (categories analysis)))
      else getInstantFixGaps analysis)"

text \<open>
  \<open>gapsByCategory\<close> (lines 78--84) is a \<open>Map\<close>, which keeps its keys in the order of their
  first insertion: an association list in that order. \<open>set\<close> on a key that is present
  replaces the value in place, on a new key it appends the entry.
\<close>

type_synonym gap_map = "(Category \<times> Gap list) list"

fun map_set :: "Category \<Rightarrow> Gap list \<Rightarrow> gap_map \<Rightarrow> gap_map" where
  "map_set k v [] = [(k, v)]"
| "map_set k v ((k', v') # m) = (if k = k' then (k, v) # m else (k', v') # map_set k v m)"

definition get_or_empty :: "gap_map \<Rightarrow> Category \<Rightarrow> Gap list" where
  "get_or_empty m k = (case map_of m k of None \<Rightarrow> [] | Some v \<Rightarrow> v)"

fun group_gaps :: "gap_map \<Rightarrow> Gap list \<Rightarrow> gap_map" where
  "group_gaps m [] = m"
| "group_gaps m (gap # rest) =
     group_gaps (map_set (gap_category gap) (get_or_empty m (gap_category gap) @ [gap]) m) rest"

definition gapsByCategory :: "Gap list \<Rightarrow> gap_map" where
  "gapsByCategory tg = group_gaps [] tg"

text \<open>\<open>Array.from(gapsByCategory.keys())\<close>, the categories of the response summary.\<close>

definition summary_categories :: "gap_map \<Rightarrow> Category list" where
  "summary_categories m = map fst m"

text \<open>A gap and a category score from the fields that the selection reads, for examples.\<close>

definition gap_of :: "string \<Rightarrow> Category \<Rightarrow> FixType \<Rightarrow> Gap" where
  "gap_of i c t =
     \<lparr>gap_id = i, gap_category = c, title = [], description = [], severity = Warning,
      confidence = High, gap_file = None, gap_line = None, fixType = t, fixTemplate = None,
      effortMinutes = None\<rparr>"

definition score_of :: "Category \<Rightarrow> int \<Rightarrow> Gap list \<Rightarrow> CategoryScore" where
  "score_of c s gs =
     \<lparr>category = c, label = [], score = s, detected = [], gaps = gs,
      canGenerate = (filter (\<lambda>g. fixType g = Instant) gs \<noteq> [])\<rparr>"

definition analysis_of :: "Platform \<Rightarrow> string list \<Rightarrow> CategoryScore list \<Rightarrow> CompletenessAnalysis" where
  "analysis_of p fs cs =
     \<lparr>repoUrl = [],
      techStack = \<lparr>platform = p, languages = [], frameworks = fs, packageManager = None,
        database = None, testFramework = None, ciProvider = None, deploymentPlatform = None,
        maturityLevel = Prototype\<rparr>,
      overallScore = 0, categories = cs, totalGaps = int (length (concat (map gaps cs))),
      blockerCount = 0, criticalCount = 0, warningCount = 0, estimatedFixMinutes = 0,
      canAutoFix = int (length (filter (\<lambda>g. fixType g = Instant) (concat (map gaps cs))))\<rparr>"


text \<open>
  The elements of a list in the order of their first occurrence, each once: the order in
  which a \<open>Map\<close> filled from left to right lists its keys.
\<close>

fun first_occurrences :: "'a list \<Rightarrow> 'a list" where
  "first_occurrences [] = []"
| "first_occurrences (x # xs) = x # filter (\<lambda>y. y \<noteq> x) (first_occurrences xs)"

text \<open>
  An analysis for concrete runs: it has the platform \<open>web\<close> and lists two of its
  categories in declaration order, with the framework names and the gap identifier
  \<open>testing-no-framework\<close> of the analyzer's test.
\<close>

fun CATEGORY_LABELS :: "Category \<Rightarrow> string" where
  "CATEGORY_LABELS Frontend = ''Frontend''"
| "CATEGORY_LABELS Backend = ''Backend''"
| "CATEGORY_LABELS Database = ''Database''"
| "CATEGORY_LABELS Authentication = ''Authentication''"
| "CATEGORY_LABELS ApiIntegrations = ''API Integrations''"
| "CATEGORY_LABELS StateManagement = ''State Management''"
| "CATEGORY_LABELS DesignUx = ''Design/UX''"
| "CATEGORY_LABELS Testing = ''Testing''"
| "CATEGORY_LABELS Security = ''Security''"
| "CATEGORY_LABELS ErrorHandling = ''Error Handling''"
| "CATEGORY_LABELS VersionControl = ''Version Control''"
| "CATEGORY_LABELS Deployment = ''Deployment''"

definition example_web_analysis :: CompletenessAnalysis where
  "example_web_analysis =
     analysis_of PWeb [''next.js'', ''react'']
       [score_of Testing 20
          [gap_of ''testing-no-framework'' Testing Instant, gap_of ''testing-no-e2e'' Testing Guided],
        score_of Security 40
          [gap_of ''security-no-headers'' Security Suggested,
           gap_of ''security-no-env-example'' Security Instant]]"


section \<open>The analyzer's public surface\<close>

text \<open>
  Modelled from the spec: \<open>analyzeCompleteness\<close> lives in the analyzer module, which is
  not among the sources; only its test and the applicability table are. The specification
  has exactly one scorer per fixed category, registered in the declared order, and omits a
  category that the table does not list for the detected platform. With the corpus and the
  profile fixed, the registry is a function from the category to its score record, and the
  record of a category carries that category.
\<close>

definition analyzed_categories :: "(Category \<Rightarrow> CategoryScore) \<Rightarrow> Platform \<Rightarrow> CategoryScore list" where
  "analyzed_categories scorer p =
     map (\<lambda>c. (scorer c)\<lparr>category := c\<rparr>)
       (filter (\<lambda>c. c \<in> set (PLATFORM_CATEGORIES p)) CATEGORIES)"

text \<open>
  Analyses for concrete runs whose category list is the one above: the scorer of a
  category returns score 50 and one instant-fix gap of that category, named after the
  category's label.
\<close>

definition example_scorer :: "Category \<Rightarrow> CategoryScore" where
  "example_scorer c = score_of c 50 [gap_of (CATEGORY_LABELS c) c Instant]"

definition example_analyzed :: "Platform \<Rightarrow> CompletenessAnalysis" where
  "example_analyzed p = analysis_of p [] (analyzed_categories example_scorer p)"

text \<open>A line break, and a list of names separated by commas.\<close>

definition newline :: string where
  "newline = [CHR 0x0A]"

fun join_names :: "string list \<Rightarrow> string" where
  "join_names [] = []"
| "join_names [f] = f"
| "join_names (f # g # fs) = f @ '', '' @ join_names (g # fs)"

text \<open>
  Modelled from the spec: \<open>formatAnalysisSummary\<close> lives in the analyzer module as well.
  The specification makes it a pure rendering with no decision logic whose digest holds
  the headings "Production Readiness" and "Category Scores" and lists the name of every
  detected framework; the digest here is those three parts, one line each, the framework
  names separated by commas.
\<close>

definition formatAnalysisSummary :: "CompletenessAnalysis \<Rightarrow> string" where
  "formatAnalysisSummary analysis =
     ''Production Readiness'' @ newline @
     ''Frameworks: '' @ join_names (frameworks (techStack analysis)) @ newline @
     ''Category Scores'' @ newline"


section \<open>The rate limiter of \<open>src/lib/rate-limit.ts\<close>\<close>

text \<open>
  The three database operations of \<open>rateLimit\<close> are calls into the Prisma client, whose
  schema and code are not among the sources, and each of them may throw. The client is a
  parameter: a record of three operations on a database state \<open>'db\<close>, each returning the
  thrown error or its result; the conversion of \<open>windowStart\<close> to a \<open>Date\<close> is the client's.
  \<open>Date.now()\<close> is a whole number of milliseconds and is passed in as \<open>now\<close>. \<open>windowMs\<close> is
  a number, that is a double, and so are \<open>windowStart\<close> and \<open>reset\<close>: each of the three
  additions and subtractions on them returns the exact result rounded to a double by the
  parameter \<open>rnd\<close>, as in the altitude calculation. \<open>Math.ceil\<close> of a double is a whole
  number and a double. \<open>limit\<close> and the count are whole numbers.
\<close>

datatype db_error = DbError

record 'db PrismaClient =
  executeRawDelete :: "rat \<Rightarrow> 'db \<Rightarrow> db_error + 'db"
  rateLimitCount :: "string \<Rightarrow> rat \<Rightarrow> 'db \<Rightarrow> db_error + int"
  rateLimitCreate :: "string \<Rightarrow> 'db \<Rightarrow> db_error + 'db"

record RateLimitResult =
  success :: bool
  reset :: rat
  remaining :: int

text \<open>
  The body of the \<open>try\<close> block (lines 18--53): the error of the first operation that
  throws, or the returned result; with it the database state that the operations which
  completed have left.
\<close>

definition rateLimit_try ::
  "(rat \<Rightarrow> rat) \<Rightarrow> 'db PrismaClient \<Rightarrow> string \<Rightarrow> int \<Rightarrow> rat \<Rightarrow> int \<Rightarrow> 'db \<Rightarrow>
     (db_error + RateLimitResult) \<times> 'db" where
  "rateLimit_try rnd prisma identifier limit windowMs now db =
     (let windowStart = rnd (of_int now - windowMs) in
      case executeRawDelete prisma windowStart db of
        Inl e \<Rightarrow> (Inl e, db)
      | Inr db1 \<Rightarrow>
          (case rateLimitCount prisma identifier windowStart db1 of
             Inl e \<Rightarrow> (Inl e, db1)
           | Inr count \<Rightarrow>
               if count \<ge> limit then
                 (Inr \<lparr>success = False, reset = of_int \<lceil>rnd (windowStart + windowMs)\<rceil>,
                       remaining = 0\<rparr>, db1)
               else
                 (case rateLimitCreate prisma identifier db1 of
                    Inl e \<Rightarrow> (Inl e, db1)
                  | Inr db2 \<Rightarrow>
                      (Inr \<lparr>success = True, reset = of_int \<lceil>rnd (windowStart + windowMs)\<rceil>,
                            remaining = limit - count - 1\<rparr>, db2))))"

text \<open>\<open>rateLimit\<close> (lines 9--63): the \<open>try\<close> block and its \<open>catch\<close>.\<close>

definition rateLimit ::
  "(rat \<Rightarrow> rat) \<Rightarrow> 'db PrismaClient \<Rightarrow> string \<Rightarrow> int \<Rightarrow> rat \<Rightarrow> int \<Rightarrow> 'db \<Rightarrow>
     RateLimitResult \<times> 'db" where
  "rateLimit rnd prisma identifier limit windowMs now db =
     (case rateLimit_try rnd prisma identifier limit windowMs now db of
        (Inl error, db') \<Rightarrow>
          (\<lparr>success = True, reset = rnd (of_int now + windowMs), remaining = limit - 1\<rparr>, db')
      | (Inr result, db') \<Rightarrow> (result, db'))"

text \<open>
  Two clients for concrete runs. The first keeps the table in memory as a list of rows
  (identifier, creation time) and stamps a new row with the clock value it is given; its
  operations are the three statements of the source. The second throws on every call.
\<close>

type_synonym rate_table = "(string \<times> int) list"

definition memory_prisma :: "int \<Rightarrow> rate_table PrismaClient" where
  "memory_prisma clock =
     \<lparr>executeRawDelete = (\<lambda>windowStart rows.
        Inr (filter (\<lambda>(i, createdAt). \<not> of_int createdAt < windowStart) rows)),
      rateLimitCount = (\<lambda>identifier windowStart rows.
        Inr (int (length
          (filter (\<lambda>(i, createdAt). i = identifier \<and> of_int createdAt \<ge> windowStart) rows)))),
      rateLimitCreate = (\<lambda>identifier rows. Inr (rows @ [(identifier, clock)]))\<rparr>"

definition failing_prisma :: "rate_table PrismaClient" where
  "failing_prisma =
     \<lparr>executeRawDelete = (\<lambda>windowStart rows. Inl DbError),
      rateLimitCount = (\<lambda>identifier windowStart rows. Inl DbError),
      rateLimitCreate = (\<lambda>identifier rows. Inl DbError)\<rparr>"

text \<open>A client whose table works but whose insertion throws.\<close>

definition readonly_prisma :: "int \<Rightarrow> rate_table PrismaClient" where
  "readonly_prisma clock = (memory_prisma clock)\<lparr>rateLimitCreate := (\<lambda>identifier rows. Inl DbError)\<rparr>"

text \<open>
  The rounding of IEEE 754 double precision itself, for concrete runs: to the nearest
  number with a significand of 53 bits, a tie going to the even significand, with no
  bound on the exponent. \<open>binade x\<close> is the exponent \<open>e\<close> with \<open>2^e \<le> |x| < 2^(e+1)\<close>, found
  from the bit lengths of numerator and denominator; the doubles of that binade are the
  multiples of \<open>2^(e-52)\<close>. It is one of the roundings that \<open>double_rounding\<close> admits.
\<close>

function bit_length :: "int \<Rightarrow> int" where
  "bit_length n = (if 0 < n then 1 + bit_length (n div 2) else 0)"
  by auto
termination
  by (relation "measure nat") auto

declare bit_length.simps [simp del]

definition pow2 :: "int \<Rightarrow> rat" where
  "pow2 e = (if 0 \<le> e then 2 ^ nat e else 1 / 2 ^ nat (- e))"

definition binade :: "rat \<Rightarrow> int" where
  "binade x =
     (let (p, q) = quotient_of \<bar>x\<bar>;
          d = bit_length p - bit_length q
      in if pow2 d \<le> \<bar>x\<bar> then d else d - 1)"

definition round_half_even :: "rat \<Rightarrow> int" where
  "round_half_even y =
     (let f = \<lfloor>y\<rfloor>; d = y - of_int f
      in if d < 1 / 2 then f else if 1 / 2 < d then f + 1 else if even f then f else f + 1)"

definition ieee_round :: "rat \<Rightarrow> rat" where
  "ieee_round x =
     (if x = 0 then 0
      else (let ulp = pow2 (binade x - 52) in of_int (round_half_even (x / ulp)) * ulp))"


section \<open>Properties of the altitude calculation\<close>

subsection \<open>The rounding of double arithmetic\<close>

text \<open>Exact arithmetic is a double rounding; the three properties, one at a time.\<close>

lemma double_rounding_exact: "double_rounding (\<lambda>x. x)"
  by (simp add: double_rounding_def)

lemma rounding_mono: "double_rounding rnd \<Longrightarrow> x \<le> y \<Longrightarrow> rnd x \<le> rnd y"
  by (simp add: double_rounding_def)

lemma rounding_int: "double_rounding rnd \<Longrightarrow> \<bar>k\<bar> \<le> 2 ^ 53 \<Longrightarrow> rnd (of_int k) = of_int k"
  by (simp add: double_rounding_def)

lemma rounding_error: "double_rounding rnd \<Longrightarrow> \<bar>rnd x - x\<bar> \<le> \<bar>x\<bar> / 2 ^ 53"
  by (simp add: double_rounding_def)

lemma rounding_numerals:
  assumes "double_rounding rnd"
  shows "rnd 0 = 0" "rnd 1 = 1" "rnd 100 = 100"
  using rounding_int [OF assms, of 0] rounding_int [OF assms, of 1]
    rounding_int [OF assms, of 100]
  by simp_all


subsection \<open>The mean, the multiplier and the scaled ceiling\<close>

lemma foldl_score_sum:
  "foldl (\<lambda>sum c. sum + res_score c) a cs = a + sum_list (map res_score cs)"
  by (induction cs arbitrary: a) auto

lemma avgScore_sum_list:
  "avgScore rnd cs = rnd (of_int (sum_list (map res_score cs)) / of_nat (length cs))"
  by (simp add: avgScore_def foldl_score_sum)

lemma exact_mean_bounds:
  assumes "cs \<noteq> []" and "\<forall>c\<in>set cs. 0 \<le> res_score c \<and> res_score c \<le> 100"
  shows "0 \<le> (of_int (sum_list (map res_score cs)) / of_nat (length cs) :: rat)"
    and "(of_int (sum_list (map res_score cs)) / of_nat (length cs) :: rat) \<le> 100"
proof -
  have lo: "0 \<le> sum_list (map res_score cs)"
    using assms(2) by (intro sum_list_nonneg) auto
  have "sum_list (map res_score cs) \<le> sum_list (map (\<lambda>c. 100) cs)"
    using assms(2) by (intro sum_list_mono) auto
  then have hi: "sum_list (map res_score cs) \<le> 100 * int (length cs)"
    by (simp add: sum_list_triv)
  have len: "0 < length cs" using assms(1) by simp
  have "(of_int (sum_list (map res_score cs)) :: rat) \<le> of_int (100 * int (length cs))"
    using hi by (simp only: of_int_le_iff)
  then show "(of_int (sum_list (map res_score cs)) / of_nat (length cs) :: rat) \<le> 100"
    using len by (simp add: divide_le_eq)
  show "0 \<le> (of_int (sum_list (map res_score cs)) / of_nat (length cs) :: rat)"
    using lo by simp
qed

lemma avgScore_bounds:
  assumes "double_rounding rnd" and "cs \<noteq> []"
    and "\<forall>c\<in>set cs. 0 \<le> res_score c \<and> res_score c \<le> 100"
  shows "0 \<le> avgScore rnd cs" and "avgScore rnd cs \<le> 100"
proof -
  note b = exact_mean_bounds [OF assms(2,3)]
  from rounding_mono [OF assms(1) b(1)] show "0 \<le> avgScore rnd cs"
    by (simp add: avgScore_sum_list rounding_numerals [OF assms(1)])
  from rounding_mono [OF assms(1) b(2)] show "avgScore rnd cs \<le> 100"
    by (simp add: avgScore_sum_list rounding_numerals [OF assms(1)])
qed

lemma healthMultiplier_bounds:
  assumes "double_rounding rnd" and "cs \<noteq> []"
    and "\<forall>c\<in>set cs. 0 \<le> res_score c \<and> res_score c \<le> 100"
  shows "0 \<le> healthMultiplier rnd cs" and "healthMultiplier rnd cs \<le> 1"
proof -
  note a = avgScore_bounds [OF assms]
  have "0 \<le> avgScore rnd cs / 100" using a(1) by simp
  from rounding_mono [OF assms(1) this] show "0 \<le> healthMultiplier rnd cs"
    by (simp add: healthMultiplier_def rounding_numerals [OF assms(1)])
  have "avgScore rnd cs / 100 \<le> 1" using a(2) by simp
  from rounding_mono [OF assms(1) this] show "healthMultiplier rnd cs \<le> 1"
    by (simp add: healthMultiplier_def rounding_numerals [OF assms(1)])
qed

lemma scaled_ceiling_bounds:
  assumes "double_rounding rnd" and "cs \<noteq> []"
    and "\<forall>c\<in>set cs. 0 \<le> res_score c \<and> res_score c \<le> 100"
    and "0 \<le> m" and "m \<le> 2 ^ 53"
  shows "0 \<le> rnd (of_int m * healthMultiplier rnd cs)"
    and "rnd (of_int m * healthMultiplier rnd cs) \<le> of_int m"
proof -
  note h = healthMultiplier_bounds [OF assms(1,2,3)]
  have "0 \<le> (of_int m :: rat) * healthMultiplier rnd cs" using assms(4) h(1) by simp
  from rounding_mono [OF assms(1) this] show "0 \<le> rnd (of_int m * healthMultiplier rnd cs)"
    by (simp add: rounding_numerals [OF assms(1)])
  have "(of_int m :: rat) * healthMultiplier rnd cs \<le> of_int m * 1"
    using assms(4) h(2) by (intro mult_left_mono) simp_all
  then have "(of_int m :: rat) * healthMultiplier rnd cs \<le> of_int m" by simp
  from rounding_mono [OF assms(1) this]
  show "rnd (of_int m * healthMultiplier rnd cs) \<le> of_int m"
    using rounding_int [OF assms(1), of m] assms(4,5) by simp
qed

text \<open>
  The rounded product of the ceiling and the multiplier stays within three units of
  relative error \<open>2^-53\<close> times the ceiling of the exact value; two numbers less than one
  apart have floors at most one apart.
\<close>

lemma scaled_ceiling_error:
  assumes "double_rounding rnd" and "cs \<noteq> []"
    and "\<forall>c\<in>set cs. 0 \<le> res_score c \<and> res_score c \<le> 100"
    and "0 \<le> m"
  shows "\<bar>rnd (of_int m * healthMultiplier rnd cs) -
           of_int m * (of_int (sum_list (map res_score cs)) / of_nat (length cs) / 100)\<bar>
         \<le> 3 * of_int m / 2 ^ 53"
proof -
  define A :: rat where "A = of_int (sum_list (map res_score cs)) / of_nat (length cs)"
  define a where "a = avgScore rnd cs"
  define h where "h = healthMultiplier rnd cs"
  define M :: rat where "M = of_int m"
  define e :: rat where "e = 1 / 2 ^ 53"
  have err: "\<bar>rnd x - x\<bar> \<le> \<bar>x\<bar> * e" for x
    using rounding_error [OF assms(1), of x] by (simp add: e_def)
  have e0: "0 \<le> e" by (simp add: e_def)
  have M0: "0 \<le> M" using assms(4) by (simp add: M_def)
  have A: "0 \<le> A" "A \<le> 100"
    using exact_mean_bounds [OF assms(2,3)] by (simp_all add: A_def)
  have a: "0 \<le> a" "a \<le> 100"
    using avgScore_bounds [OF assms(1,2,3)] by (simp_all add: a_def)
  have h: "0 \<le> h" "h \<le> 1"
    using healthMultiplier_bounds [OF assms(1,2,3)] by (simp_all add: h_def)
  have aA: "a = rnd A" by (simp add: a_def avgScore_sum_list A_def)
  have ha: "h = rnd (a / 100)" by (simp add: h_def healthMultiplier_def a_def)
  have "\<bar>A\<bar> * e \<le> 100 * e" using A e0 by (intro mult_right_mono) simp_all
  with err [of A] have e1: "\<bar>a - A\<bar> \<le> 100 * e" unfolding aA by linarith
  have "\<bar>a / 100\<bar> * e \<le> 1 * e" using a e0 by (intro mult_right_mono) simp_all
  with err [of "a / 100"] have e2: "\<bar>h - a / 100\<bar> \<le> e" unfolding ha by linarith
  have e3: "\<bar>h - A / 100\<bar> \<le> 2 * e"
    using e1 e2 by linarith
  have "M * h - M * (A / 100) = M * (h - A / 100)"
    by (simp only: right_diff_distrib)
  then have "\<bar>M * h - M * (A / 100)\<bar> = \<bar>M\<bar> * \<bar>h - A / 100\<bar>"
    by (simp only: abs_mult)
  also have "\<dots> = M * \<bar>h - A / 100\<bar>"
    using M0 by simp
  also have "\<dots> \<le> M * (2 * e)"
    using e3 M0 by (rule mult_left_mono)
  finally have e4: "\<bar>M * h - M * (A / 100)\<bar> \<le> 2 * (M * e)" by simp
  have "M * h \<le> M * 1" using M0 h by (intro mult_left_mono) simp_all
  moreover have "0 \<le> M * h" using M0 h by simp
  ultimately have "\<bar>M * h\<bar> \<le> M" by simp
  then have "\<bar>M * h\<bar> * e \<le> M * e" using e0 by (rule mult_right_mono)
  with err [of "M * h"] have e5: "\<bar>rnd (M * h) - M * h\<bar> \<le> M * e" by linarith
  have "\<bar>rnd (M * h) - M * (A / 100)\<bar> \<le> 3 * (M * e)"
    using e4 e5 by linarith
  then show ?thesis by (simp add: M_def h_def A_def e_def)
qed

lemma floor_within_one:
  fixes p x :: rat
  assumes "\<bar>p - x\<bar> < 1"
  shows "\<bar>\<lfloor>p\<rfloor> - \<lfloor>x\<rfloor>\<bar> \<le> 1"
proof -
  have "of_int \<lfloor>p\<rfloor> \<le> p" "p < of_int \<lfloor>p\<rfloor> + 1" "of_int \<lfloor>x\<rfloor> \<le> x" "x < of_int \<lfloor>x\<rfloor> + 1"
    by linarith+
  with assms have "(of_int \<lfloor>p\<rfloor> :: rat) < of_int \<lfloor>x\<rfloor> + 2" "(of_int \<lfloor>x\<rfloor> :: rat) < of_int \<lfloor>p\<rfloor> + 2"
    by linarith+
  then have "\<lfloor>p\<rfloor> < \<lfloor>x\<rfloor> + 2" "\<lfloor>x\<rfloor> < \<lfloor>p\<rfloor> + 2"
    by (simp_all flip: of_int_less_iff [where ?'a = rat])
  then show ?thesis by linarith
qed

lemma exact_scaled_ceiling:
  "\<lfloor>of_int m * (of_int s / of_nat n / 100 :: rat)\<rfloor> = (m * s) div (100 * int n)"
proof -
  have "of_int m * (of_int s / of_nat n / 100 :: rat) = of_int (m * s) / of_int (100 * int n)"
    by simp
  then show ?thesis by (simp only: floor_divide_of_int_eq)
qed


subsection \<open>The head of the sorted copy and the report on a non-empty list\<close>

lemma sort_by_maxUsers_first_min:
  "cs \<noteq> [] \<Longrightarrow>
   \<exists>b rest pre post. sort_by_maxUsers cs = b # rest \<and> cs = pre @ b # post \<and>
      (\<forall>c\<in>set cs. maxUsers b \<le> maxUsers c) \<and> (\<forall>c\<in>set pre. maxUsers b < maxUsers c)"
proof (induction cs)
  case Nil
  then show ?case by simp
next
  case (Cons a cs)
  show ?case
  proof (cases "cs = []")
    case True
    have "a # cs = [] @ a # []" using True by simp
    then show ?thesis using True by fastforce
  next
    case False
    from Cons.IH [OF False] obtain b rest pre post where
      s: "sort_by_maxUsers cs = b # rest" and d: "cs = pre @ b # post" and
      m: "\<forall>c\<in>set cs. maxUsers b \<le> maxUsers c" and p: "\<forall>c\<in>set pre. maxUsers b < maxUsers c"
      by blast
    show ?thesis
    proof (cases "maxUsers a \<le> maxUsers b")
      case True
      have "sort_by_maxUsers (a # cs) = a # b # rest" using s True by simp
      moreover have "a # cs = [] @ a # cs" by simp
      moreover have "\<forall>c\<in>set (a # cs). maxUsers a \<le> maxUsers c" using m True by auto
      ultimately show ?thesis by (metis empty_iff list.set(1))
    next
      case False
      have "sort_by_maxUsers (a # cs) = b # insert_by_maxUsers a rest" using s False by simp
      moreover have "a # cs = (a # pre) @ b # post" using d by simp
      moreover have "\<forall>c\<in>set (a # cs). maxUsers b \<le> maxUsers c" using m False by auto
      moreover have "\<forall>c\<in>set (a # pre). maxUsers b < maxUsers c" using p False by auto
      ultimately show ?thesis by blast
    qed
  qed
qed

lemma calculateAltitude_nonempty:
  assumes "cs \<noteq> []"
  shows "\<exists>r b pre post. calculateAltitude rnd cs = Inr r \<and> cs = pre @ b # post \<and>
           bottleneck r = b\<lparr>res_bottleneck := True\<rparr> \<and>
           (\<forall>c\<in>set cs. maxUsers b \<le> maxUsers c) \<and>
           (\<forall>c\<in>set pre. maxUsers b < maxUsers c) \<and>
           maxConcurrentUsers r = \<lfloor>rnd (of_int (maxUsers b) * healthMultiplier rnd cs)\<rfloor> \<and>
           altitudeLevel r = alt_level (usersToAltitude (maxConcurrentUsers r)) \<and>
           currentAltitude r = alt_value (usersToAltitude (maxConcurrentUsers r))"
proof -
  from sort_by_maxUsers_first_min [OF assms] obtain b rest pre post where
    s: "sort_by_maxUsers cs = b # rest" and d: "cs = pre @ b # post" and
    m: "\<forall>c\<in>set cs. maxUsers b \<le> maxUsers c" and p: "\<forall>c\<in>set pre. maxUsers b < maxUsers c"
    by blast
  define u where "u = \<lfloor>rnd (of_int (maxUsers b) * healthMultiplier rnd cs)\<rfloor>"
  define r where "r =
      \<lparr>currentAltitude = alt_value (usersToAltitude u),
       altitudeLevel = alt_level (usersToAltitude u),
       maxConcurrentUsers = u,
       bottleneck = b\<lparr>res_bottleneck := True\<rparr>,
       report_categories =
         map (\<lambda>c. c\<lparr>res_bottleneck := (res_category c = res_category b)\<rparr>) cs\<rparr>"
  have c: "calculateAltitude rnd cs = Inr r"
    by (simp add: calculateAltitude_def s Let_def r_def u_def)
  have f: "bottleneck r = b\<lparr>res_bottleneck := True\<rparr>" "maxConcurrentUsers r = u"
    "altitudeLevel r = alt_level (usersToAltitude u)"
    "currentAltitude r = alt_value (usersToAltitude u)"
    by (simp_all add: r_def)
  have "calculateAltitude rnd cs = Inr r \<and> cs = pre @ b # post \<and>
           bottleneck r = b\<lparr>res_bottleneck := True\<rparr> \<and>
           (\<forall>c\<in>set cs. maxUsers b \<le> maxUsers c) \<and>
           (\<forall>c\<in>set pre. maxUsers b < maxUsers c) \<and>
           maxConcurrentUsers r = \<lfloor>rnd (of_int (maxUsers b) * healthMultiplier rnd cs)\<rfloor> \<and>
           altitudeLevel r = alt_level (usersToAltitude (maxConcurrentUsers r)) \<and>
           currentAltitude r = alt_value (usersToAltitude (maxConcurrentUsers r))"
    using c d m p f(1) unfolding f(2,3,4) u_def by (intro conjI) (assumption | rule refl)+
  then show ?thesis by (intro exI)
qed


subsection \<open>Effective users\<close>

text \<open>
  Claim C1, as the code has it. For every double rounding and every non-empty list of
  category results whose scores lie between 0 and 100 and whose ceilings lie between 0
  and \<open>2^50\<close>, \<open>calculateAltitude\<close> returns a report whose \<open>maxConcurrentUsers\<close> is the floor
  of the bottleneck's ceiling times the multiplier, the multiplier being the mean of the
  scores over 100 with the mean not rounded to a whole number first. It differs by at most
  one from the integer quotient of ceiling times score sum by 100 times the number of
  categories, and equals that quotient in exact arithmetic. The bottleneck's ceiling is
  the least of all ceilings, and \<open>maxConcurrentUsers\<close> lies between 0 and that ceiling.
\<close>

theorem effectiveUsers_unrounded_mean_within_ceiling:
  assumes "double_rounding rnd" and "cs \<noteq> []"
    and "\<forall>c\<in>set cs. 0 \<le> res_score c \<and> res_score c \<le> 100"
    and "\<forall>c\<in>set cs. 0 \<le> maxUsers c \<and> maxUsers c \<le> 2 ^ 50"
  shows "\<exists>r. calculateAltitude rnd cs = Inr r \<and>
           maxConcurrentUsers r =
             \<lfloor>rnd (of_int (maxUsers (bottleneck r)) *
               rnd (rnd (of_int (sum_list (map res_score cs)) / of_nat (length cs)) / 100))\<rfloor> \<and>
           \<bar>maxConcurrentUsers r -
              (maxUsers (bottleneck r) * sum_list (map res_score cs)) div
                (100 * int (length cs))\<bar> \<le> 1 \<and>
           (rnd = (\<lambda>x. x) \<longrightarrow>
              maxConcurrentUsers r =
                (maxUsers (bottleneck r) * sum_list (map res_score cs)) div
                  (100 * int (length cs))) \<and>
           (\<forall>c\<in>set cs. maxUsers (bottleneck r) \<le> maxUsers c) \<and>
           0 \<le> maxConcurrentUsers r \<and>
           maxConcurrentUsers r \<le> maxUsers (bottleneck r)"
proof -
  from calculateAltitude_nonempty [OF assms(2)] obtain r b pre post where
    c: "calculateAltitude rnd cs = Inr r" and d: "cs = pre @ b # post" and
    bn: "bottleneck r = b\<lparr>res_bottleneck := True\<rparr>" and
    m: "\<forall>c\<in>set cs. maxUsers b \<le> maxUsers c" and
    e: "maxConcurrentUsers r = \<lfloor>rnd (of_int (maxUsers b) * healthMultiplier rnd cs)\<rfloor>"
    by blast
  have mb: "maxUsers (bottleneck r) = maxUsers b" using bn by simp
  have "b \<in> set cs" using d by simp
  then have nb: "0 \<le> maxUsers b" and ub: "maxUsers b \<le> 2 ^ 50" using assms(4) by blast+
  have ub': "maxUsers b \<le> 2 ^ 53" using ub by simp
  note p = scaled_ceiling_bounds [OF assms(1,2,3) nb ub']
  have lo: "0 \<le> maxConcurrentUsers r" using p(1) by (simp add: e)
  have hi: "maxConcurrentUsers r \<le> maxUsers b" using p(2) by (simp add: e floor_le_iff)
  have f1: "maxConcurrentUsers r =
      \<lfloor>rnd (of_int (maxUsers b) *
        rnd (rnd (of_int (sum_list (map res_score cs)) / of_nat (length cs)) / 100))\<rfloor>"
    by (simp only: e healthMultiplier_def avgScore_sum_list)
  have "(of_int (maxUsers b) :: rat) \<le> of_int (2 ^ 50)" using ub by (simp only: of_int_le_iff)
  then have "3 * (of_int (maxUsers b) :: rat) / 2 ^ 53 < 1" by simp
  with scaled_ceiling_error [OF assms(1,2,3) nb]
  have "\<bar>rnd (of_int (maxUsers b) * healthMultiplier rnd cs) -
      of_int (maxUsers b) * (of_int (sum_list (map res_score cs)) / of_nat (length cs) / 100)\<bar> < 1"
    by (rule le_less_trans)
  from floor_within_one [OF this]
  have f2: "\<bar>maxConcurrentUsers r -
      (maxUsers b * sum_list (map res_score cs)) div (100 * int (length cs))\<bar> \<le> 1"
    by (simp only: e exact_scaled_ceiling)
  have f3: "rnd = (\<lambda>x. x) \<longrightarrow>
      maxConcurrentUsers r =
        (maxUsers b * sum_list (map res_score cs)) div (100 * int (length cs))"
  proof
    assume i: "rnd = (\<lambda>x. x)"
    have "maxConcurrentUsers r =
        \<lfloor>of_int (maxUsers b) *
          (of_int (sum_list (map res_score cs)) / of_nat (length cs) / 100 :: rat)\<rfloor>"
      unfolding f1 i ..
    then show "maxConcurrentUsers r =
        (maxUsers b * sum_list (map res_score cs)) div (100 * int (length cs))"
      by (simp only: exact_scaled_ceiling)
  qed
  have "calculateAltitude rnd cs = Inr r \<and>
           maxConcurrentUsers r =
             \<lfloor>rnd (of_int (maxUsers (bottleneck r)) *
               rnd (rnd (of_int (sum_list (map res_score cs)) / of_nat (length cs)) / 100))\<rfloor> \<and>
           \<bar>maxConcurrentUsers r -
              (maxUsers (bottleneck r) * sum_list (map res_score cs)) div
                (100 * int (length cs))\<bar> \<le> 1 \<and>
           (rnd = (\<lambda>x. x) \<longrightarrow>
              maxConcurrentUsers r =
                (maxUsers (bottleneck r) * sum_list (map res_score cs)) div
                  (100 * int (length cs))) \<and>
           (\<forall>c\<in>set cs. maxUsers (bottleneck r) \<le> maxUsers c) \<and>
           0 \<le> maxConcurrentUsers r \<and>
           maxConcurrentUsers r \<le> maxUsers (bottleneck r)"
    using c f1 f2 f3 m lo hi unfolding mb by (intro conjI) assumption+
  then show ?thesis by (rule exI)
qed

text \<open>
  Exact arithmetic on two categories with scores 50 and 70 and ceilings 1000 and 5000.
\<close>

theorem effectiveUsers_unrounded_mean_within_ceiling_witness:
  "double_rounding (\<lambda>x. x) \<and>
   [result_of Frontend 50 1000, result_of Backend 70 5000] \<noteq> [] \<and>
   list_all (\<lambda>c. 0 \<le> res_score c \<and> res_score c \<le> 100)
     [result_of Frontend 50 1000, result_of Backend 70 5000] \<and>
   list_all (\<lambda>c. 0 \<le> maxUsers c \<and> maxUsers c \<le> 2 ^ 50)
     [result_of Frontend 50 1000, result_of Backend 70 5000] \<and>
   (\<exists>r. calculateAltitude (\<lambda>x. x) [result_of Frontend 50 1000, result_of Backend 70 5000] =
          Inr r \<and>
        maxConcurrentUsers r = (maxUsers (bottleneck r) * 120) div 200 \<and>
        0 \<le> maxConcurrentUsers r \<and> maxConcurrentUsers r \<le> 1000)"
proof -
  let ?cs = "[result_of Frontend 50 1000, result_of Backend 70 5000]"
  have h1: "?cs \<noteq> []" by simp
  have h2: "\<forall>c\<in>set ?cs. 0 \<le> res_score c \<and> res_score c \<le> 100"
    by (simp add: result_of_def)
  have h3: "\<forall>c\<in>set ?cs. 0 \<le> maxUsers c \<and> maxUsers c \<le> 2 ^ 50"
    by (simp add: result_of_def)
  from effectiveUsers_unrounded_mean_within_ceiling [OF double_rounding_exact h1 h2 h3] obtain r where
    r: "calculateAltitude (\<lambda>x. x) ?cs = Inr r"
      "(\<lambda>x::rat. x) = (\<lambda>x. x) \<longrightarrow>
         maxConcurrentUsers r =
           (maxUsers (bottleneck r) * sum_list (map res_score ?cs)) div (100 * int (length ?cs))"
      "\<forall>c\<in>set ?cs. maxUsers (bottleneck r) \<le> maxUsers c"
      "0 \<le> maxConcurrentUsers r" "maxConcurrentUsers r \<le> maxUsers (bottleneck r)"
    by blast
  from r(2) have q: "maxConcurrentUsers r = (maxUsers (bottleneck r) * 120) div 200"
    by (simp add: result_of_def)
  from r(3) have "maxUsers (bottleneck r) \<le> 1000" by (simp add: result_of_def)
  with r(5) have "maxConcurrentUsers r \<le> 1000" by linarith
  with r(1,4) q have "\<exists>r. calculateAltitude (\<lambda>x. x) ?cs = Inr r \<and>
        maxConcurrentUsers r = (maxUsers (bottleneck r) * 120) div 200 \<and>
        0 \<le> maxConcurrentUsers r \<and> maxConcurrentUsers r \<le> 1000"
    by blast
  with double_rounding_exact h1 show ?thesis by (simp add: result_of_def)
qed

text \<open>
  The claim as worded takes the rounded mean. With scores 2, 3, 3 and ceilings of 100 the
  mean is 8/3 and the worded rule rounds it to 3 and gives \<open>floor (100 * 3 / 100) = 3\<close>
  users. The code gives \<open>floor (100 * ((8/3) / 100)) = 2\<close> in exact arithmetic, and under
  no double rounding does it give 3.
\<close>

theorem effectiveUsers_rounded_mean_counterexample:
  "overallScore_spec [2, 3, 3] = 3 \<and>
   effectiveUsers_spec 100 (overallScore_spec [2, 3, 3]) = 3 \<and>
   map_sum id maxConcurrentUsers
     (calculateAltitude (\<lambda>x. x)
        [result_of Frontend 2 100, result_of Backend 3 100, result_of Database 3 100]) = Inr 2 \<and>
   map_sum id (maxUsers \<circ> bottleneck)
     (calculateAltitude (\<lambda>x. x)
        [result_of Frontend 2 100, result_of Backend 3 100, result_of Database 3 100]) = Inr 100 \<and>
   \<not> (\<exists>rnd. double_rounding rnd \<and>
        map_sum id maxConcurrentUsers
          (calculateAltitude rnd
             [result_of Frontend 2 100, result_of Backend 3 100, result_of Database 3 100]) =
          Inr 3)"
proof -
  let ?cs = "[result_of Frontend 2 100, result_of Backend 3 100, result_of Database 3 100]"
  have s: "overallScore_spec [2, 3, 3] = 3"
    "effectiveUsers_spec 100 (overallScore_spec [2, 3, 3]) = 3"
    by code_simp+
  have x: "map_sum id maxConcurrentUsers (calculateAltitude (\<lambda>x. x) ?cs) = Inr 2"
    "map_sum id (maxUsers \<circ> bottleneck) (calculateAltitude (\<lambda>x. x) ?cs) = Inr 100"
    by code_simp+
  have n: "\<not> (\<exists>rnd. double_rounding rnd \<and>
      map_sum id maxConcurrentUsers (calculateAltitude rnd ?cs) = Inr 3)"
  proof
    assume "\<exists>rnd. double_rounding rnd \<and>
      map_sum id maxConcurrentUsers (calculateAltitude rnd ?cs) = Inr 3"
    then obtain rnd where dr: "double_rounding rnd"
      and three: "map_sum id maxConcurrentUsers (calculateAltitude rnd ?cs) = Inr 3"
      by blast
    have ne: "?cs \<noteq> []" by simp
    have sc: "\<forall>c\<in>set ?cs. 0 \<le> res_score c \<and> res_score c \<le> 100"
      by (simp add: result_of_def)
    from calculateAltitude_nonempty [OF ne, of rnd] obtain r b pre post where
      c: "calculateAltitude rnd ?cs = Inr r" and d: "?cs = pre @ b # post" and
      e: "maxConcurrentUsers r = \<lfloor>rnd (of_int (maxUsers b) * healthMultiplier rnd ?cs)\<rfloor>"
      by blast
    have "b \<in> set ?cs" by (subst d) simp
    then have mb: "maxUsers b = 100" by (auto simp: result_of_def)
    have "\<bar>rnd (of_int 100 * healthMultiplier rnd ?cs) -
        of_int 100 * (of_int (sum_list (map res_score ?cs)) / of_nat (length ?cs) / 100)\<bar>
        \<le> 3 * of_int 100 / 2 ^ 53"
      by (rule scaled_ceiling_error [OF dr ne sc]) simp
    then have "\<bar>rnd (100 * healthMultiplier rnd ?cs) - 8 / 3\<bar> \<le> 300 / 2 ^ 53"
      by (simp add: result_of_def)
    moreover have "(300 :: rat) / 2 ^ 53 \<le> 1 / 4" by simp
    ultimately have "\<bar>rnd (100 * healthMultiplier rnd ?cs) - 8 / 3\<bar> \<le> 1 / 4"
      by (rule order_trans)
    then have "2 \<le> rnd (100 * healthMultiplier rnd ?cs)" "rnd (100 * healthMultiplier rnd ?cs) < 3"
      by linarith+
    then have "\<lfloor>rnd (100 * healthMultiplier rnd ?cs)\<rfloor> = 2" by linarith
    then have "maxConcurrentUsers r = 2" using e mb by simp
    with three c show False by simp
  qed
  from s x n show ?thesis by (intro conjI)
qed


subsection \<open>The bottleneck\<close>

lemma decl_index_values:
  "decl_index Frontend = 0" "decl_index Backend = 1" "decl_index Database = 2"
  "decl_index Authentication = 3" "decl_index ApiIntegrations = 4"
  "decl_index StateManagement = 5" "decl_index DesignUx = 6" "decl_index Testing = 7"
  "decl_index Security = 8" "decl_index ErrorHandling = 9" "decl_index VersionControl = 10"
  "decl_index Deployment = 11"
  by (simp_all add: decl_index_def CATEGORIES_def)

text \<open>
  Claim C2, as the code has it. For every non-empty list of category results the reported
  bottleneck is an element of the list whose ceiling is the least of all ceilings, and
  among the elements with that least ceiling it is the one that comes first in the list
  handed to \<open>calculateAltitude\<close>: every element before it has a strictly greater ceiling.
  When the list is arranged in the declaration order of \<open>CATEGORIES\<close>, this is the
  category declared earliest among those with the least ceiling.
\<close>

theorem bottleneck_is_first_minimum_in_list_order:
  assumes "cs \<noteq> []"
  shows "\<exists>r b pre post. calculateAltitude rnd cs = Inr r \<and> cs = pre @ b # post \<and>
           bottleneck r = b\<lparr>res_bottleneck := True\<rparr> \<and>
           (\<forall>c\<in>set cs. maxUsers b \<le> maxUsers c) \<and>
           (\<forall>c\<in>set pre. maxUsers b < maxUsers c) \<and>
           (sorted_wrt (\<lambda>x y. decl_index (res_category x) < decl_index (res_category y)) cs \<longrightarrow>
              (\<forall>c\<in>set cs. maxUsers c = maxUsers b \<longrightarrow>
                 decl_index (res_category b) \<le> decl_index (res_category c)))"
proof -
  from calculateAltitude_nonempty [OF assms] obtain r b pre post where
    c: "calculateAltitude rnd cs = Inr r" and d: "cs = pre @ b # post" and
    bn: "bottleneck r = b\<lparr>res_bottleneck := True\<rparr>" and
    m: "\<forall>c\<in>set cs. maxUsers b \<le> maxUsers c" and
    p: "\<forall>c\<in>set pre. maxUsers b < maxUsers c"
    by blast
  have o: "sorted_wrt (\<lambda>x y. decl_index (res_category x) < decl_index (res_category y)) cs \<longrightarrow>
      (\<forall>c\<in>set cs. maxUsers c = maxUsers b \<longrightarrow>
         decl_index (res_category b) \<le> decl_index (res_category c))"
  proof (intro impI ballI)
    fix x
    assume sw: "sorted_wrt (\<lambda>x y. decl_index (res_category x) < decl_index (res_category y)) cs"
      and x: "x \<in> set cs" and e: "maxUsers x = maxUsers b"
    from x d have "x \<in> set pre \<or> x = b \<or> x \<in> set post" by auto
    then show "decl_index (res_category b) \<le> decl_index (res_category x)"
    proof (elim disjE)
      assume "x \<in> set pre"
      with p e show ?thesis by force
    next
      assume "x = b"
      then show ?thesis by simp
    next
      assume "x \<in> set post"
      with sw d have "decl_index (res_category b) < decl_index (res_category x)"
        by (simp add: sorted_wrt_append)
      then show ?thesis by simp
    qed
  qed
  have "calculateAltitude rnd cs = Inr r \<and> cs = pre @ b # post \<and>
           bottleneck r = b\<lparr>res_bottleneck := True\<rparr> \<and>
           (\<forall>c\<in>set cs. maxUsers b \<le> maxUsers c) \<and>
           (\<forall>c\<in>set pre. maxUsers b < maxUsers c) \<and>
           (sorted_wrt (\<lambda>x y. decl_index (res_category x) < decl_index (res_category y)) cs \<longrightarrow>
              (\<forall>c\<in>set cs. maxUsers c = maxUsers b \<longrightarrow>
                 decl_index (res_category b) \<le> decl_index (res_category c)))"
    using c d bn m p o by (intro conjI) assumption+
  then show ?thesis by (intro exI)
qed

text \<open>
  A list in declaration order where Backend and Database share the least ceiling: the
  bottleneck is Backend.
\<close>

theorem bottleneck_is_first_minimum_in_list_order_witness:
  "[result_of Frontend 80 5000, result_of Backend 50 1000, result_of Database 20 1000] \<noteq> [] \<and>
   sorted_wrt (\<lambda>x y. decl_index (res_category x) < decl_index (res_category y))
     [result_of Frontend 80 5000, result_of Backend 50 1000, result_of Database 20 1000] \<and>
   map_sum id (res_category \<circ> bottleneck)
     (calculateAltitude (\<lambda>x. x)
        [result_of Frontend 80 5000, result_of Backend 50 1000, result_of Database 20 1000]) =
     Inr Backend"
proof -
  let ?cs = "[result_of Frontend 80 5000, result_of Backend 50 1000, result_of Database 20 1000]"
  have h: "?cs \<noteq> []" by simp
  have sw: "sorted_wrt (\<lambda>x y. decl_index (res_category x) < decl_index (res_category y)) ?cs"
    by (simp add: result_of_def decl_index_values)
  from bottleneck_is_first_minimum_in_list_order [OF h, of "\<lambda>x. x"] obtain r b pre post where
    c: "calculateAltitude (\<lambda>x. x) ?cs = Inr r" and d: "?cs = pre @ b # post" and
    bn: "bottleneck r = b\<lparr>res_bottleneck := True\<rparr>" and
    m: "\<forall>c\<in>set ?cs. maxUsers b \<le> maxUsers c" and
    p: "\<forall>c\<in>set pre. maxUsers b < maxUsers c" and
    o: "sorted_wrt (\<lambda>x y. decl_index (res_category x) < decl_index (res_category y)) ?cs \<longrightarrow>
      (\<forall>c\<in>set ?cs. maxUsers c = maxUsers b \<longrightarrow>
         decl_index (res_category b) \<le> decl_index (res_category c))"
    by blast
  have "b \<in> set ?cs" by (subst d) simp
  then have "b = result_of Frontend 80 5000 \<or> b = result_of Backend 50 1000 \<or>
      b = result_of Database 20 1000" by simp
  then have "b = result_of Backend 50 1000"
    using m o sw by (auto simp: result_of_def decl_index_values)
  then have "res_category (bottleneck r) = Backend" using bn by (simp add: result_of_def)
  with c h sw show ?thesis by simp
qed

text \<open>
  The claim as worded breaks ties by the declaration order of \<open>CATEGORIES\<close> for every
  list. The applicability table lists the categories of the platform \<open>ios\<close> with
  \<open>stateManagement\<close> last; on results in that order with equal ceilings the code reports
  \<open>designUx\<close>, the first of the list, although \<open>stateManagement\<close> has the same ceiling and
  is declared earlier.
\<close>

theorem bottleneck_tie_not_by_declaration_order_counterexample:
  "map_sum id (res_category \<circ> bottleneck)
     (calculateAltitude (\<lambda>x. x) (map (\<lambda>c. result_of c 50 100) (PLATFORM_CATEGORIES PIos))) = Inr DesignUx \<and>
   map_sum id (maxUsers \<circ> bottleneck)
     (calculateAltitude (\<lambda>x. x) (map (\<lambda>c. result_of c 50 100) (PLATFORM_CATEGORIES PIos))) = Inr 100 \<and>
   result_of StateManagement 50 100 \<in>
     set (map (\<lambda>c. result_of c 50 100) (PLATFORM_CATEGORIES PIos)) \<and>
   maxUsers (result_of StateManagement 50 100) = 100 \<and>
   decl_index StateManagement < decl_index DesignUx"
  by code_simp


subsection \<open>Altitude levels\<close>

text \<open>
  \<open>highest_breakpoint\<close> returns the greatest entry of the table that is at most the
  number of users, and nothing exactly when there is no such entry.
\<close>

lemma highest_breakpoint_none:
  "highest_breakpoint bs u = None \<Longrightarrow> \<forall>b\<in>set bs. \<not> b \<le> u"
  by (induction bs) (auto split: option.splits if_splits)

lemma highest_breakpoint_is_max:
  "highest_breakpoint bs u = Some h \<Longrightarrow>
     h \<in> set bs \<and> h \<le> u \<and> (\<forall>b\<in>set bs. b \<le> u \<longrightarrow> b \<le> h)"
  by (induction bs arbitrary: h)
    (auto split: option.splits if_splits dest: highest_breakpoint_none)

text \<open>
  Claim C3, as the code has it. For every non-negative integer number of users the level
  that \<open>usersToAltitude\<close> assigns is the level of the highest breakpoint that is at most
  that number in the scale with the eleven breakpoints 0, 1, 10, 100, 1000, 10000, 100000,
  1000000, 10000000, 100000000, 1000000000, mapped in this order to GROUNDED, HANGAR,
  RUNWAY, TAKEOFF, CLIMBING, CRUISING, STRATOSPHERE, KARMAN, ORBIT, GEOSTATIONARY, VOYAGER.
  In particular 9 and 10 fall in HANGAR and RUNWAY, 99 and 100 in RUNWAY and TAKEOFF, 999
  and 1000 in TAKEOFF and CLIMBING.
\<close>

theorem usersToAltitude_selects_highest_scale_breakpoint:
  assumes "0 \<le> u"
  shows "(\<exists>b. highest_breakpoint (map fst ALTITUDE_SCALE) u = Some b \<and>
            map_of ALTITUDE_SCALE b = Some (alt_level (usersToAltitude u)) \<and>
            b \<le> u \<and> (\<forall>(b', l')\<in>set ALTITUDE_SCALE. b' \<le> u \<longrightarrow> b' \<le> b)) \<and>
         map fst ALTITUDE_SCALE =
           [0, 1, 10, 100, 1000, 10000, 100000, 1000000, 10000000, 100000000, 1000000000] \<and>
         map snd ALTITUDE_SCALE =
           [GROUNDED, HANGAR, RUNWAY, TAKEOFF, CLIMBING, CRUISING, STRATOSPHERE, KARMAN, ORBIT,
            GEOSTATIONARY, VOYAGER] \<and>
         map (alt_level \<circ> usersToAltitude) [9, 10, 99, 100, 999, 1000] =
           [HANGAR, RUNWAY, RUNWAY, TAKEOFF, TAKEOFF, CLIMBING]"
proof -
  consider "u = 0" | "1 \<le> u \<and> u < 10" | "10 \<le> u \<and> u < 100" | "100 \<le> u \<and> u < 1000"
    | "1000 \<le> u \<and> u < 10000" | "10000 \<le> u \<and> u < 100000" | "100000 \<le> u \<and> u < 1000000"
    | "1000000 \<le> u \<and> u < 10000000" | "10000000 \<le> u \<and> u < 100000000"
    | "100000000 \<le> u \<and> u < 1000000000" | "1000000000 \<le> u"
    using assms by linarith
  then have sel: "\<exists>b. highest_breakpoint (map fst ALTITUDE_SCALE) u = Some b \<and>
           map_of ALTITUDE_SCALE b = Some (alt_level (usersToAltitude u)) \<and>
           b \<le> u \<and> (\<forall>(b', l')\<in>set ALTITUDE_SCALE. b' \<le> u \<longrightarrow> b' \<le> b)"
    by cases (simp_all add: ALTITUDE_SCALE_def usersToAltitude_def)
  have bnd: "map (alt_level \<circ> usersToAltitude) [9, 10, 99, 100, 999, 1000] =
           [HANGAR, RUNWAY, RUNWAY, TAKEOFF, TAKEOFF, CLIMBING]"
    by (simp add: usersToAltitude_def)
  have lv: "map snd ALTITUDE_SCALE =
           [GROUNDED, HANGAR, RUNWAY, TAKEOFF, CLIMBING, CRUISING, STRATOSPHERE, KARMAN, ORBIT,
            GEOSTATIONARY, VOYAGER]"
    by (simp add: ALTITUDE_SCALE_def)
  have bp: "map fst ALTITUDE_SCALE =
           [0, 1, 10, 100, 1000, 10000, 100000, 1000000, 10000000, 100000000, 1000000000]"
    by (simp add: ALTITUDE_SCALE_def)
  from sel bp lv bnd show ?thesis by (intro conjI)
qed

text \<open>
  Five users: the highest breakpoint is 1 and the level is HANGAR.
\<close>

theorem usersToAltitude_selects_highest_scale_breakpoint_witness:
  "(0::int) \<le> 5 \<and> highest_breakpoint (map fst ALTITUDE_SCALE) 5 = Some 1 \<and>
   map_of ALTITUDE_SCALE 1 = Some (alt_level (usersToAltitude 5)) \<and>
   alt_level (usersToAltitude 5) = HANGAR"
proof -
  have h: "(0::int) \<le> 5" by simp
  from usersToAltitude_selects_highest_scale_breakpoint [OF h] obtain b where
    b: "highest_breakpoint (map fst ALTITUDE_SCALE) 5 = Some b"
      "map_of ALTITUDE_SCALE b = Some (alt_level (usersToAltitude 5))"
    by blast
  have "highest_breakpoint (map fst ALTITUDE_SCALE) 5 = Some 1"
    by (simp add: ALTITUDE_SCALE_def)
  with b have "b = 1" by simp
  with b show ?thesis by (simp add: ALTITUDE_SCALE_def)
qed

text \<open>
  The claim as worded has ten breakpoints, without 1. In that table 0 and 5 users have the
  same highest breakpoint, 0, so the worded rule gives them one level; the code gives
  GROUNDED to 0 and HANGAR to 5. Ten breakpoints select at most ten levels.
\<close>

theorem usersToAltitude_ten_breakpoint_table_counterexample:
  "highest_breakpoint spec_breakpoints 0 = Some 0 \<and>
   highest_breakpoint spec_breakpoints 5 = Some 0 \<and>
   alt_level (usersToAltitude 0) = GROUNDED \<and>
   alt_level (usersToAltitude 5) = HANGAR \<and>
   length spec_breakpoints = 10"
  by (simp add: spec_breakpoints_def usersToAltitude_def)

subsection \<open>All categories at score 100\<close>

text \<open>
  Claim C5, as the code has it. When every category of a non-empty list scores exactly
  100 (and the ceilings are whole numbers up to \<open>2^53\<close>), the mean is 100 and the
  multiplier is exactly 1 under every double rounding; the reported bottleneck is the
  category with the smallest ceiling, the first such in the order of the list; the
  effective users equal that ceiling, and the altitude level and value are those of that
  ceiling alone.
\<close>

theorem all_perfect_bottleneck_is_smallest_ceiling:
  assumes "double_rounding rnd" and "cs \<noteq> []"
    and "\<forall>c\<in>set cs. res_score c = 100"
    and "\<forall>c\<in>set cs. \<bar>maxUsers c\<bar> \<le> 2 ^ 53"
  shows "avgScore rnd cs = 100 \<and> healthMultiplier rnd cs = 1 \<and>
         (\<exists>r b pre post. calculateAltitude rnd cs = Inr r \<and> cs = pre @ b # post \<and>
            bottleneck r = b\<lparr>res_bottleneck := True\<rparr> \<and>
            (\<forall>c\<in>set cs. maxUsers b \<le> maxUsers c) \<and>
            (\<forall>c\<in>set pre. maxUsers b < maxUsers c) \<and>
            maxConcurrentUsers r = maxUsers b \<and>
            altitudeLevel r = alt_level (usersToAltitude (maxUsers b)) \<and>
            currentAltitude r = alt_value (usersToAltitude (maxUsers b)))"
proof -
  have "sum_list (map res_score cs) = 100 * int (length cs)"
    using assms(3) by (induction cs) auto
  moreover have "0 < length cs" using assms(2) by simp
  ultimately have a: "avgScore rnd cs = 100"
    by (simp add: avgScore_sum_list rounding_numerals [OF assms(1)])
  then have h: "healthMultiplier rnd cs = 1"
    by (simp add: healthMultiplier_def rounding_numerals [OF assms(1)])
  from calculateAltitude_nonempty [OF assms(2)] obtain r b pre post where
    c: "calculateAltitude rnd cs = Inr r" and d: "cs = pre @ b # post" and
    bn: "bottleneck r = b\<lparr>res_bottleneck := True\<rparr>" and
    m: "\<forall>c\<in>set cs. maxUsers b \<le> maxUsers c" and
    p: "\<forall>c\<in>set pre. maxUsers b < maxUsers c" and
    e: "maxConcurrentUsers r = \<lfloor>rnd (of_int (maxUsers b) * healthMultiplier rnd cs)\<rfloor>" and
    l: "altitudeLevel r = alt_level (usersToAltitude (maxConcurrentUsers r))" and
    v: "currentAltitude r = alt_value (usersToAltitude (maxConcurrentUsers r))"
    by blast
  have "b \<in> set cs" using d by simp
  then have "\<bar>maxUsers b\<bar> \<le> 2 ^ 53" using assms(4) by blast
  then have "rnd (of_int (maxUsers b)) = of_int (maxUsers b)"
    by (rule rounding_int [OF assms(1)])
  then have e': "maxConcurrentUsers r = maxUsers b" using e h by simp
  have "calculateAltitude rnd cs = Inr r \<and> cs = pre @ b # post \<and>
            bottleneck r = b\<lparr>res_bottleneck := True\<rparr> \<and>
            (\<forall>c\<in>set cs. maxUsers b \<le> maxUsers c) \<and>
            (\<forall>c\<in>set pre. maxUsers b < maxUsers c) \<and>
            maxConcurrentUsers r = maxUsers b \<and>
            altitudeLevel r = alt_level (usersToAltitude (maxUsers b)) \<and>
            currentAltitude r = alt_value (usersToAltitude (maxUsers b))"
    using c d bn m p e' l v unfolding e' by (intro conjI) (assumption | rule refl)+
  then have "\<exists>r b pre post. calculateAltitude rnd cs = Inr r \<and> cs = pre @ b # post \<and>
            bottleneck r = b\<lparr>res_bottleneck := True\<rparr> \<and>
            (\<forall>c\<in>set cs. maxUsers b \<le> maxUsers c) \<and>
            (\<forall>c\<in>set pre. maxUsers b < maxUsers c) \<and>
            maxConcurrentUsers r = maxUsers b \<and>
            altitudeLevel r = alt_level (usersToAltitude (maxUsers b)) \<and>
            currentAltitude r = alt_value (usersToAltitude (maxUsers b))"
    by (intro exI)
  with a h show ?thesis by (intro conjI)
qed

text \<open>
  The three categories of the platform \<open>library\<close> at score 100 with the ceilings of their
  highest tier: the bottleneck is Testing with 50000 users, level CRUISING.
\<close>

theorem all_perfect_bottleneck_is_smallest_ceiling_witness:
  "double_rounding (\<lambda>x. x) \<and>
   map perfect_result (PLATFORM_CATEGORIES PLibrary) \<noteq> [] \<and>
   list_all (\<lambda>c. res_score c = 100) (map perfect_result (PLATFORM_CATEGORIES PLibrary)) \<and>
   list_all (\<lambda>c. \<bar>maxUsers c\<bar> \<le> 2 ^ 53) (map perfect_result (PLATFORM_CATEGORIES PLibrary)) \<and>
   avgScore (\<lambda>x. x) (map perfect_result (PLATFORM_CATEGORIES PLibrary)) = 100 \<and>
   map_sum id (res_category \<circ> bottleneck)
     (calculateAltitude (\<lambda>x. x) (map perfect_result (PLATFORM_CATEGORIES PLibrary))) = Inr Testing \<and>
   map_sum id maxConcurrentUsers
     (calculateAltitude (\<lambda>x. x) (map perfect_result (PLATFORM_CATEGORIES PLibrary))) = Inr 50000 \<and>
   map_sum id altitudeLevel
     (calculateAltitude (\<lambda>x. x) (map perfect_result (PLATFORM_CATEGORIES PLibrary))) = Inr CRUISING"
proof -
  let ?cs = "map perfect_result (PLATFORM_CATEGORIES PLibrary)"
  have h1: "?cs \<noteq> []" by simp
  have h2: "\<forall>c\<in>set ?cs. res_score c = 100" by (simp add: perfect_result_def)
  have h3: "\<forall>c\<in>set ?cs. \<bar>maxUsers c\<bar> \<le> 2 ^ 53" by (simp add: perfect_result_def)
  from all_perfect_bottleneck_is_smallest_ceiling [OF double_rounding_exact h1 h2 h3]
  obtain r b pre post where
    a: "avgScore (\<lambda>x. x) ?cs = 100" and
    c: "calculateAltitude (\<lambda>x. x) ?cs = Inr r" and d: "?cs = pre @ b # post" and
    bn: "bottleneck r = b\<lparr>res_bottleneck := True\<rparr>" and
    m: "\<forall>c\<in>set ?cs. maxUsers b \<le> maxUsers c" and
    p: "\<forall>c\<in>set pre. maxUsers b < maxUsers c" and
    e: "maxConcurrentUsers r = maxUsers b" and
    l: "altitudeLevel r = alt_level (usersToAltitude (maxUsers b))"
    by blast
  have cs: "?cs = [perfect_result Testing, perfect_result Security, perfect_result VersionControl]"
    by simp
  have "pre = [] \<or> (\<exists>x xs. pre = x # xs)" by (cases pre) simp_all
  then have "b = perfect_result Testing"
  proof
    assume "pre = []"
    with d cs show ?thesis by simp
  next
    assume "\<exists>x xs. pre = x # xs"
    then obtain x xs where x: "pre = x # xs" by blast
    with d cs have "x = perfect_result Testing" by simp
    moreover have "maxUsers b < maxUsers x" using p x by simp
    ultimately have "maxUsers b < 50000" by (simp add: perfect_result_def)
    moreover have "b \<in> set ?cs" by (subst d) simp
    then have "50000 \<le> maxUsers b" by (auto simp: perfect_result_def)
    ultimately show ?thesis by simp
  qed
  then have "res_category (bottleneck r) = Testing" "maxConcurrentUsers r = 50000"
    "altitudeLevel r = CRUISING"
    using bn e l by (simp_all add: perfect_result_def usersToAltitude_def)
  with c a h1 double_rounding_exact show ?thesis by (simp add: perfect_result_def)
qed

text \<open>
  The claim as worded makes the category with the largest highest-tier ceiling the
  bottleneck. With all twelve categories at score 100 and the ceilings of the document's
  table, the largest ceiling is Database's 10000000 (level ORBIT); the code reports
  Frontend, whose ceiling 10000 is the smallest, with 10000 effective users and level
  CRUISING.
\<close>

theorem all_perfect_bottleneck_not_largest_counterexample:
  "map_sum id (res_category \<circ> bottleneck)
     (calculateAltitude (\<lambda>x. x) (map perfect_result CATEGORIES)) = Inr Frontend \<and>
   map_sum id maxConcurrentUsers (calculateAltitude (\<lambda>x. x) (map perfect_result CATEGORIES)) = Inr 10000 \<and>
   map_sum id altitudeLevel (calculateAltitude (\<lambda>x. x) (map perfect_result CATEGORIES)) = Inr CRUISING \<and>
   list_all (\<lambda>c. res_score c = 100) (map perfect_result CATEGORIES) \<and>
   list_all (\<lambda>c. maxUsersIfPerfect c \<le> maxUsersIfPerfect Database) CATEGORIES \<and>
   maxUsersIfPerfect Database = 10000000 \<and>
   alt_level (usersToAltitude (maxUsersIfPerfect Database)) = ORBIT"
  by code_simp


section \<open>Properties of the gap selection and grouping\<close>

subsection \<open>Precedence of the filters\<close>

text \<open>
  Claim C9. In \<open>POST\<close> the selection filters have a fixed precedence. A non-empty
  \<open>gapsToFix\<close> list selects the gaps whose id is in the list, whatever \<open>instantOnly\<close> and
  \<open>categories\<close> hold. Otherwise (the list absent or empty) a true \<open>instantOnly\<close> selects
  the instant-fix gaps, whatever \<open>categories\<close> holds. Otherwise a non-empty \<open>categories\<close>
  list selects all gaps of the listed categories. With no filter at all, an empty
  \<open>gapsToFix\<close> array included, the instant-fix gaps are selected; every one of them has the
  fix type \<open>instant\<close>.
\<close>

theorem targetGaps_filter_precedence:
  "(\<forall>ids. gapsToFix body = Some ids \<and> ids \<noteq> [] \<longrightarrow>
      targetGaps analysis body =
        filter (\<lambda>g. gap_id g \<in> set ids) (concat (map gaps (categories analysis)))) \<and>
   ((gapsToFix body = None \<or> gapsToFix body = Some []) \<and> instantOnly body = Some True \<longrightarrow>
      targetGaps analysis body = getInstantFixGaps analysis) \<and>
   (\<forall>cats. (gapsToFix body = None \<or> gapsToFix body = Some []) \<and>
      instantOnly body \<noteq> Some True \<and> req_categories body = Some cats \<and> cats \<noteq> [] \<longrightarrow>
      targetGaps analysis body =
        concat (map gaps (filter (\<lambda>c. category c \<in> set cats) (categories analysis)))) \<and>
   ((gapsToFix body = None \<or> gapsToFix body = Some []) \<and> instantOnly body \<noteq> Some True \<and>
      (req_categories body = None \<or> req_categories body = Some []) \<longrightarrow>
      targetGaps analysis body = getInstantFixGaps analysis) \<and>
   (\<forall>g \<in> set (getInstantFixGaps analysis). fixType g = Instant)"
proof -
  have ids: "\<forall>ids. gapsToFix body = Some ids \<and> ids \<noteq> [] \<longrightarrow>
      targetGaps analysis body =
        filter (\<lambda>g. gap_id g \<in> set ids) (concat (map gaps (categories analysis)))"
    by (simp add: targetGaps_def present_nonempty_def items_def)
  have no_ids: "\<not> present_nonempty (gapsToFix body)"
    if "gapsToFix body = None \<or> gapsToFix body = Some []"
    using that by (auto simp: present_nonempty_def)
  have inst: "(gapsToFix body = None \<or> gapsToFix body = Some []) \<and>
      instantOnly body = Some True \<longrightarrow>
      targetGaps analysis body = getInstantFixGaps analysis"
    using no_ids by (simp add: targetGaps_def)
  have cats: "\<forall>cats. (gapsToFix body = None \<or> gapsToFix body = Some []) \<and>
      instantOnly body \<noteq> Some True \<and> req_categories body = Some cats \<and> cats \<noteq> [] \<longrightarrow>
      targetGaps analysis body =
        concat (map gaps (filter (\<lambda>c. category c \<in> set cats) (categories analysis)))"
    using no_ids by (simp add: targetGaps_def present_nonempty_def items_def)
  have none: "(gapsToFix body = None \<or> gapsToFix body = Some []) \<and>
      instantOnly body \<noteq> Some True \<and>
      (req_categories body = None \<or> req_categories body = Some []) \<longrightarrow>
      targetGaps analysis body = getInstantFixGaps analysis"
    using no_ids by (auto simp: targetGaps_def present_nonempty_def)
  have only: "\<forall>g \<in> set (getInstantFixGaps analysis). fixType g = Instant"
    by (simp add: getInstantFixGaps_def)
  from ids inst cats none only show ?thesis by (intro conjI)
qed


text \<open>
  The four branches on the web example: all three filters given; an empty id list with
  \<open>instantOnly\<close> and a category; no id list and \<open>instantOnly\<close> false with a category; and only
  an empty id list.
\<close>

theorem targetGaps_filter_precedence_witness:
  "targetGaps example_web_analysis
     \<lparr>req_categories = Some [Security], gapsToFix = Some [''testing-no-e2e''],
      instantOnly = Some True\<rparr> = [gap_of ''testing-no-e2e'' Testing Guided] \<and>
   targetGaps example_web_analysis
     \<lparr>req_categories = Some [Security], gapsToFix = Some [], instantOnly = Some True\<rparr> =
     [gap_of ''testing-no-framework'' Testing Instant,
      gap_of ''security-no-env-example'' Security Instant] \<and>
   targetGaps example_web_analysis
     \<lparr>req_categories = Some [Security], gapsToFix = None, instantOnly = Some False\<rparr> =
     [gap_of ''security-no-headers'' Security Suggested,
      gap_of ''security-no-env-example'' Security Instant] \<and>
   targetGaps example_web_analysis
     \<lparr>req_categories = None, gapsToFix = Some [], instantOnly = None\<rparr> =
     [gap_of ''testing-no-framework'' Testing Instant,
      gap_of ''security-no-env-example'' Security Instant]"
proof -
  have g: "concat (map gaps (categories example_web_analysis)) =
      [gap_of ''testing-no-framework'' Testing Instant, gap_of ''testing-no-e2e'' Testing Guided,
       gap_of ''security-no-headers'' Security Suggested,
       gap_of ''security-no-env-example'' Security Instant]"
    by (simp add: example_web_analysis_def analysis_of_def score_of_def)
  have i: "getInstantFixGaps example_web_analysis =
      [gap_of ''testing-no-framework'' Testing Instant,
       gap_of ''security-no-env-example'' Security Instant]"
    by (simp add: getInstantFixGaps_def g) (simp add: gap_of_def)
  have c: "concat (map gaps (filter (\<lambda>c. category c = Security)
        (categories example_web_analysis))) =
      [gap_of ''security-no-headers'' Security Suggested,
       gap_of ''security-no-env-example'' Security Instant]"
    by (simp add: example_web_analysis_def analysis_of_def score_of_def)
  have f: "filter (\<lambda>g. gap_id g = ''testing-no-e2e'')
        (concat (map gaps (categories example_web_analysis))) =
      [gap_of ''testing-no-e2e'' Testing Guided]"
    by (simp add: g) (simp add: gap_of_def)
  show ?thesis
    using
      targetGaps_filter_precedence [of "\<lparr>req_categories = Some [Security], gapsToFix = Some [''testing-no-e2e''],
        instantOnly = Some True\<rparr>" example_web_analysis]
      targetGaps_filter_precedence [of "\<lparr>req_categories = Some [Security], gapsToFix = Some [],
        instantOnly = Some True\<rparr>" example_web_analysis]
      targetGaps_filter_precedence [of "\<lparr>req_categories = Some [Security], gapsToFix = None,
        instantOnly = Some False\<rparr>" example_web_analysis]
      targetGaps_filter_precedence [of "\<lparr>req_categories = None, gapsToFix = Some [], instantOnly = None\<rparr>"
        example_web_analysis]
    by (simp add: i c f)
qed


subsection \<open>The grouping map\<close>

lemma map_of_map_set: "map_of (map_set k v m) = (map_of m)(k \<mapsto> v)"
  by (induction m) (auto simp: fun_eq_iff)

lemma keys_map_set:
  "map fst (map_set k v m) = (if k \<in> fst ` set m then map fst m else map fst m @ [k])"
  by (induction m) force+

lemma get_or_empty_map_set:
  "get_or_empty (map_set k v m) c = (if c = k then v else get_or_empty m c)"
  by (simp add: get_or_empty_def map_of_map_set)

lemma get_or_empty_Nil: "get_or_empty [] c = []"
  by (simp add: get_or_empty_def)

lemma get_or_empty_group_gaps:
  "get_or_empty (group_gaps m gs) c =
     get_or_empty m c @ filter (\<lambda>g. gap_category g = c) gs"
  by (induction gs arbitrary: m) (simp_all add: get_or_empty_map_set)

lemma set_first_occurrences: "set (first_occurrences xs) = set xs"
  by (induction xs) auto

lemma distinct_first_occurrences: "distinct (first_occurrences xs)"
  by (induction xs) (simp_all add: distinct_filter)

lemma keys_group_gaps:
  "map fst (group_gaps m gs) =
     map fst m @ filter (\<lambda>c. c \<notin> fst ` set m) (first_occurrences (map gap_category gs))"
proof (induction gs arbitrary: m)
  case Nil
  then show ?case by simp
next
  case (Cons g gs)
  let ?k = "gap_category g"
  let ?m = "map_set ?k (get_or_empty m ?k @ [g]) m"
  have k: "fst ` set ?m = insert ?k (fst ` set m)"
    using keys_map_set [of ?k "get_or_empty m ?k @ [g]" m]
    by (metis (no_types, lifting) insert_absorb list.set_map set_append list.simps(15)
        empty_set Un_insert_right sup_bot.right_neutral)
  show ?case
  proof (cases "?k \<in> fst ` set m")
    case True
    have "filter (\<lambda>c. c \<notin> fst ` set m) (filter (\<lambda>y. y \<noteq> ?k) (first_occurrences (map gap_category gs))) =
        filter (\<lambda>c. c \<notin> fst ` set m) (first_occurrences (map gap_category gs))"
      using True by (auto simp: filter_filter intro: filter_cong)
    then show ?thesis
      using True Cons.IH [of ?m] by (simp add: keys_map_set k insert_absorb)
  next
    case False
    have "filter (\<lambda>c. c \<notin> insert ?k (fst ` set m)) (first_occurrences (map gap_category gs)) =
        filter (\<lambda>c. c \<notin> fst ` set m) (filter (\<lambda>y. y \<noteq> ?k) (first_occurrences (map gap_category gs)))"
      by (auto simp: filter_filter intro: filter_cong)
    then show ?thesis
      using False Cons.IH [of ?m] by (simp add: keys_map_set k)
  qed
qed

lemma keys_gapsByCategory:
  "summary_categories (gapsByCategory tg) = first_occurrences (map gap_category tg)"
  by (simp add: summary_categories_def gapsByCategory_def keys_group_gaps)

lemma groups_gapsByCategory:
  assumes "(c, gs) \<in> set (gapsByCategory tg)"
  shows "gs = filter (\<lambda>g. gap_category g = c) tg"
proof -
  have "distinct (map fst (gapsByCategory tg))"
    using keys_gapsByCategory [of tg]
    by (simp add: summary_categories_def distinct_first_occurrences)
  with assms have "map_of (gapsByCategory tg) c = Some gs" by simp
  then have "get_or_empty (gapsByCategory tg) c = gs" by (simp add: get_or_empty_def)
  moreover have "get_or_empty (gapsByCategory tg) c = filter (\<lambda>g. gap_category g = c) tg"
    by (simp add: gapsByCategory_def get_or_empty_group_gaps get_or_empty_Nil)
  ultimately show ?thesis by simp
qed

lemma decl_index_inj: "decl_index a = decl_index b \<Longrightarrow> a = b"
  by (cases a; cases b; simp add: decl_index_values)

lemma first_occurrences_declaration_order:
  "sorted_wrt (\<lambda>a b. decl_index a \<le> decl_index b) xs \<Longrightarrow>
   sorted_wrt (\<lambda>a b. decl_index a < decl_index b) (first_occurrences xs)"
proof (induction xs)
  case Nil
  then show ?case by simp
next
  case (Cons x xs)
  have "\<forall>y\<in>set xs. y \<noteq> x \<longrightarrow> decl_index x < decl_index y"
  proof (intro ballI impI)
    fix y assume "y \<in> set xs" "y \<noteq> x"
    with Cons.prems have "decl_index x \<le> decl_index y" by simp
    moreover have "decl_index x \<noteq> decl_index y" using \<open>y \<noteq> x\<close> decl_index_inj by blast
    ultimately show "decl_index x < decl_index y" by simp
  qed
  moreover have "sorted_wrt (\<lambda>a b. decl_index a < decl_index b) (first_occurrences xs)"
    using Cons by simp
  ultimately show ?case
    by (simp add: set_first_occurrences sorted_wrt_filter)
qed

lemma sorted_wrt_all_pairs:
  "(\<forall>x\<in>set xs. \<forall>y\<in>set xs. R x y) \<Longrightarrow> sorted_wrt R xs"
  by (induction xs) simp_all

lemma gaps_in_declaration_order:
  assumes "sorted_wrt (\<lambda>a b. decl_index (category a) < decl_index (category b)) cs"
    and "\<forall>c\<in>set cs. \<forall>g\<in>set (gaps c). gap_category g = category c"
  shows "sorted_wrt (\<lambda>a b. decl_index (gap_category a) \<le> decl_index (gap_category b))
           (concat (map gaps cs))"
  using assms
proof (induction cs)
  case Nil
  then show ?case by simp
next
  case (Cons c cs)
  have own: "sorted_wrt (\<lambda>a b. decl_index (gap_category a) \<le> decl_index (gap_category b)) (gaps c)"
    using Cons.prems(2) by (intro sorted_wrt_all_pairs) simp
  have rest: "sorted_wrt (\<lambda>a b. decl_index (gap_category a) \<le> decl_index (gap_category b))
      (concat (map gaps cs))"
    using Cons by simp
  have cross: "\<forall>x\<in>set (gaps c). \<forall>y\<in>set (concat (map gaps cs)).
      decl_index (gap_category x) \<le> decl_index (gap_category y)"
  proof (intro ballI)
    fix x y assume x: "x \<in> set (gaps c)" and y: "y \<in> set (concat (map gaps cs))"
    from y obtain d where d: "d \<in> set cs" "y \<in> set (gaps d)"
      unfolding set_concat by auto
    have "decl_index (category c) < decl_index (category d)" using Cons.prems(1) d(1) by simp
    moreover have "gap_category x = category c" using Cons.prems(2) x by simp
    moreover have "gap_category y = category d" using Cons.prems(2) d by simp
    ultimately show "decl_index (gap_category x) \<le> decl_index (gap_category y)" by simp
  qed
  have "concat (map gaps (c # cs)) = gaps c @ concat (map gaps cs)" by simp
  then show ?case using own rest cross by (simp only: sorted_wrt_append)
qed

lemma targetGaps_in_declaration_order:
  assumes "sorted_wrt (\<lambda>a b. decl_index (category a) < decl_index (category b))
      (categories analysis)"
    and "\<forall>c\<in>set (categories analysis). \<forall>g\<in>set (gaps c). gap_category g = category c"
  shows "sorted_wrt (\<lambda>a b. decl_index a \<le> decl_index b)
           (map gap_category (targetGaps analysis body))"
proof -
  have all: "sorted_wrt (\<lambda>a b. decl_index (gap_category a) \<le> decl_index (gap_category b))
      (concat (map gaps (categories analysis)))"
    using assms by (rule gaps_in_declaration_order)
  have sub: "sorted_wrt (\<lambda>a b. decl_index (gap_category a) \<le> decl_index (gap_category b))
      (concat (map gaps (filter P (categories analysis))))" for P
    using assms by (intro gaps_in_declaration_order sorted_wrt_filter) simp_all
  have "sorted_wrt (\<lambda>a b. decl_index (gap_category a) \<le> decl_index (gap_category b))
      (targetGaps analysis body)"
    using all sub by (simp add: targetGaps_def getInstantFixGaps_def sorted_wrt_filter)
  then show ?thesis by (simp add: sorted_wrt_map)
qed

text \<open>
  The selected gaps are taken from the analysis's category list score by score, so the
  order in which categories first occur among them follows that list.
\<close>

lemma first_occurrences_same_category:
  "(\<forall>g\<in>set gs. gap_category g = k) \<Longrightarrow>
   first_occurrences (map gap_category gs @ ys) =
     (if gs = [] then first_occurrences ys else k # filter (\<lambda>y. y \<noteq> k) (first_occurrences ys))"
  by (induction gs) auto

lemma first_occurrences_selected:
  assumes "distinct (map category cs)"
    and "\<forall>c\<in>set cs. \<forall>g\<in>set (sel c). gap_category g = category c"
  shows "first_occurrences (map gap_category (concat (map sel cs))) =
           map category (filter (\<lambda>c. sel c \<noteq> []) cs)"
  using assms
proof (induction cs)
  case Nil
  then show ?case by simp
next
  case (Cons c cs)
  have ih: "first_occurrences (map gap_category (concat (map sel cs))) =
      map category (filter (\<lambda>c. sel c \<noteq> []) cs)"
    using Cons by simp
  have own: "\<forall>g\<in>set (sel c). gap_category g = category c" using Cons.prems(2) by simp
  have "category c \<notin> set (map category cs)" using Cons.prems(1) by simp
  moreover have "set (map category (filter (\<lambda>c. sel c \<noteq> []) cs)) \<subseteq> set (map category cs)"
    by auto
  ultimately have nin: "category c \<notin> set (map category (filter (\<lambda>c. sel c \<noteq> []) cs))"
    by blast
  have keep: "filter (\<lambda>y. y \<noteq> category c) (map category (filter (\<lambda>c. sel c \<noteq> []) cs)) =
      map category (filter (\<lambda>c. sel c \<noteq> []) cs)"
  proof (intro filter_True ballI)
    fix x
    assume "x \<in> set (map category (filter (\<lambda>c. sel c \<noteq> []) cs))"
    with nin show "x \<noteq> category c" by blast
  qed
  have "map gap_category (concat (map sel (c # cs))) =
      map gap_category (sel c) @ map gap_category (concat (map sel cs))"
    by simp
  then show ?case
    by (simp only: first_occurrences_same_category [OF own] ih keep) simp
qed

lemma selected_categories:
  assumes "distinct (map category cs)"
    and "\<forall>c\<in>set cs. \<forall>g\<in>set (sel c). gap_category g = category c"
  shows "map category (filter (\<lambda>c. sel c \<noteq> []) cs) =
           filter (\<lambda>k. k \<in> gap_category ` set (concat (map sel cs))) (map category cs)"
proof -
  have inj: "inj_on category (set cs)" using assms(1) by (simp add: distinct_map)
  have "sel c \<noteq> [] \<longleftrightarrow> category c \<in> gap_category ` set (concat (map sel cs))"
    if c: "c \<in> set cs" for c
  proof
    assume "sel c \<noteq> []"
    then obtain g where g: "g \<in> set (sel c)" by (cases "sel c") auto
    then have "gap_category g = category c" using assms(2) c by blast
    moreover have "g \<in> set (concat (map sel cs))" using g c by auto
    ultimately show "category c \<in> gap_category ` set (concat (map sel cs))" by force
  next
    assume "category c \<in> gap_category ` set (concat (map sel cs))"
    then obtain g d where d: "d \<in> set cs" "g \<in> set (sel d)" "gap_category g = category c"
      by auto
    then have "category d = category c" using assms(2) by force
    then have "d = c" using inj d(1) c by (auto dest: inj_onD)
    with d(2) show "sel c \<noteq> []" by auto
  qed
  then have "filter (\<lambda>c. sel c \<noteq> []) cs =
      filter (\<lambda>c. category c \<in> gap_category ` set (concat (map sel cs))) cs"
    by (intro filter_cong) auto
  then show ?thesis by (simp add: filter_map comp_def)
qed

lemma concat_gaps_filter:
  "concat (map gaps (filter P cs)) = concat (map (\<lambda>c. if P c then gaps c else []) cs)"
  by (induction cs) auto

lemma targetGaps_selection:
  "\<exists>sel. targetGaps analysis body = concat (map sel (categories analysis)) \<and>
         (\<forall>c. set (sel c) \<subseteq> set (gaps c))"
proof -
  let ?cs = "categories analysis"
  have f: "\<exists>sel. filter Q (concat (map gaps ?cs)) = concat (map sel ?cs) \<and>
      (\<forall>c. set (sel c) \<subseteq> set (gaps c))" for Q
  proof (intro exI conjI allI)
    show "filter Q (concat (map gaps ?cs)) = concat (map (\<lambda>c. filter Q (gaps c)) ?cs)"
      by (simp add: filter_concat comp_def)
    show "set (filter Q (gaps c)) \<subseteq> set (gaps c)" for c by auto
  qed
  have p: "\<exists>sel. concat (map gaps (filter P ?cs)) = concat (map sel ?cs) \<and>
      (\<forall>c. set (sel c) \<subseteq> set (gaps c))" for P
  proof (intro exI conjI allI)
    show "concat (map gaps (filter P ?cs)) = concat (map (\<lambda>c. if P c then gaps c else []) ?cs)"
      by (rule concat_gaps_filter)
    show "set (if P c then gaps c else []) \<subseteq> set (gaps c)" for c by auto
  qed
  show ?thesis
  proof (cases "present_nonempty (gapsToFix body)")
    case True
    then show ?thesis unfolding targetGaps_def by (simp only: if_True) (rule f)
  next
    case ids: False
    show ?thesis
    proof (cases "instantOnly body = Some True")
      case True
      then show ?thesis
        unfolding targetGaps_def getInstantFixGaps_def using ids
        by (simp only: if_True if_False simp_thms) (rule f)
    next
      case flag: False
      show ?thesis
      proof (cases "present_nonempty (req_categories body)")
        case True
        then show ?thesis
          unfolding targetGaps_def using ids flag
          by (simp only: if_True if_False simp_thms) (rule p)
      next
        case False
        then show ?thesis
          unfolding targetGaps_def getInstantFixGaps_def using ids flag
          by (simp only: if_True if_False simp_thms) (rule f)
      qed
    qed
  qed
qed

lemma groups_follow_category_list:
  assumes "distinct (map category (categories analysis))"
    and "\<forall>c\<in>set (categories analysis). \<forall>g\<in>set (gaps c). gap_category g = category c"
  shows "first_occurrences (map gap_category (targetGaps analysis body)) =
           filter (\<lambda>k. k \<in> gap_category ` set (targetGaps analysis body))
             (map category (categories analysis))"
proof -
  from targetGaps_selection [of analysis body] obtain sel where
    t: "targetGaps analysis body = concat (map sel (categories analysis))" and
    s: "\<forall>c. set (sel c) \<subseteq> set (gaps c)"
    by blast
  have h: "\<forall>c\<in>set (categories analysis). \<forall>g\<in>set (sel c). gap_category g = category c"
    using assms(2) s by blast
  show ?thesis
    unfolding t
    by (simp only: first_occurrences_selected [OF assms(1) h] selected_categories [OF assms(1) h])
qed

lemma analyzed_categories_declaration_order:
  "sorted_wrt (\<lambda>a b. decl_index (category a) < decl_index (category b))
     (analyzed_categories scorer p)"
proof -
  have "sorted_wrt (\<lambda>a b. decl_index a < decl_index b) CATEGORIES"
    by (simp add: CATEGORIES_def decl_index_values)
  then have "sorted_wrt (\<lambda>a b. decl_index a < decl_index b)
      (filter (\<lambda>c. c \<in> set (PLATFORM_CATEGORIES p)) CATEGORIES)"
    by (rule sorted_wrt_filter)
  then show ?thesis by (simp add: analyzed_categories_def sorted_wrt_map)
qed

lemma analyzed_categories_gap_category:
  assumes "\<forall>c. \<forall>g\<in>set (gaps (scorer c)). gap_category g = c"
  shows "\<forall>s\<in>set (analyzed_categories scorer p). \<forall>g\<in>set (gaps s). gap_category g = category s"
  using assms by (auto simp: analyzed_categories_def)

lemma targetGaps_categories_listed:
  assumes "\<forall>c\<in>set (categories analysis). \<forall>g\<in>set (gaps c). gap_category g = category c"
  shows "gap_category ` set (targetGaps analysis body) \<subseteq> set (map category (categories analysis))"
proof -
  from targetGaps_selection [of analysis body] obtain sel where
    t: "targetGaps analysis body = concat (map sel (categories analysis))" and
    s: "\<forall>c. set (sel c) \<subseteq> set (gaps c)"
    by blast
  show ?thesis
  proof
    fix k
    assume "k \<in> gap_category ` set (targetGaps analysis body)"
    then obtain g c where c: "c \<in> set (categories analysis)" and g: "g \<in> set (sel c)"
      and k: "k = gap_category g"
      unfolding t by auto
    from g s have "g \<in> set (gaps c)" by blast
    with assms c have "gap_category g = category c" by blast
    with k c show "k \<in> set (map category (categories analysis))" by simp
  qed
qed

lemma groups_of_analyzed_categories:
  assumes c: "categories analysis = analyzed_categories scorer p"
    and s: "\<forall>c. \<forall>g\<in>set (gaps (scorer c)). gap_category g = c"
  shows "first_occurrences (map gap_category (targetGaps analysis body)) =
           filter (\<lambda>k. k \<in> gap_category ` set (targetGaps analysis body)) CATEGORIES"
proof -
  let ?P = "\<lambda>k. k \<in> gap_category ` set (targetGaps analysis body)"
  let ?A = "\<lambda>k. k \<in> set (PLATFORM_CATEGORIES p)"
  have m: "map category (categories analysis) = filter ?A CATEGORIES"
    by (simp add: c analyzed_categories_def comp_def)
  have "distinct CATEGORIES" by (simp add: CATEGORIES_def)
  then have d: "distinct (map category (categories analysis))" by (simp add: m)
  have h: "\<forall>c\<in>set (categories analysis). \<forall>g\<in>set (gaps c). gap_category g = category c"
    unfolding c by (rule analyzed_categories_gap_category [OF s])
  have sub: "gap_category ` set (targetGaps analysis body) \<subseteq> set (filter ?A CATEGORIES)"
    using targetGaps_categories_listed [OF h, of body] by (simp only: m)
  have "first_occurrences (map gap_category (targetGaps analysis body)) =
      filter ?P (filter ?A CATEGORIES)"
    by (simp only: groups_follow_category_list [OF d h] m)
  also have "\<dots> = filter (\<lambda>k. ?A k \<and> ?P k) CATEGORIES" by (simp only: filter_filter)
  also have "\<dots> = filter ?P CATEGORIES"
  proof (rule filter_cong [OF refl])
    fix k
    assume "k \<in> set CATEGORIES"
    from sub show "(?A k \<and> ?P k) = ?P k" by auto
  qed
  finally show ?thesis .
qed

text \<open>
  Claim C6, as the code has it. For every analysis and request, the selected gaps are
  grouped by each gap's own category: every category that has a selected gap has one
  group, the groups come in the order in which their categories first occur among the
  selected gaps, and the group of a category holds exactly the selected gaps of that
  category, in their order, and is not empty. With a single filter the selected gaps are
  exactly the matching ones: the gaps whose id is in a non-empty id list, all gaps of the
  scores whose category is in a non-empty category list, or the instant-fix gaps. When
  the analysis lists its categories in declaration order and every gap carries the
  category of the score that holds it, the groups are in declaration order. When the
  analysis has one score per category and every gap carries the category of the score
  that holds it, the groups are the categories of the analysis's category list that have
  a selected gap, in the order of that list. When the category list is the analyzer's and
  the gaps of every scorer carry its category, the groups are the declared categories
  that have a selected gap, in declaration order. An empty list of gap ids or of
  categories is no filter: it selects the instant-fix gaps. The grouping is a function of
  the analysis and the request, the same on every run.
\<close>

theorem gapsByCategory_groups_in_first_occurrence_order:
  "summary_categories (gapsByCategory (targetGaps analysis body)) =
     first_occurrences (map gap_category (targetGaps analysis body)) \<and>
   distinct (summary_categories (gapsByCategory (targetGaps analysis body))) \<and>
   (\<forall>(c, gs)\<in>set (gapsByCategory (targetGaps analysis body)).
      gs = filter (\<lambda>g. gap_category g = c) (targetGaps analysis body) \<and> gs \<noteq> []) \<and>
   (\<forall>g\<in>set (targetGaps analysis body).
      get_or_empty (gapsByCategory (targetGaps analysis body)) (gap_category g) =
        filter (\<lambda>h. gap_category h = gap_category g) (targetGaps analysis body)) \<and>
   (\<forall>ids. ids \<noteq> [] \<longrightarrow>
      targetGaps analysis \<lparr>req_categories = None, gapsToFix = Some ids, instantOnly = None\<rparr> =
        filter (\<lambda>g. gap_id g \<in> set ids) (concat (map gaps (categories analysis)))) \<and>
   (\<forall>cats. cats \<noteq> [] \<longrightarrow>
      targetGaps analysis \<lparr>req_categories = Some cats, gapsToFix = None, instantOnly = None\<rparr> =
        concat (map gaps (filter (\<lambda>c. category c \<in> set cats) (categories analysis)))) \<and>
   targetGaps analysis \<lparr>req_categories = None, gapsToFix = None, instantOnly = Some True\<rparr> =
     getInstantFixGaps analysis \<and>
   (sorted_wrt (\<lambda>a b. decl_index (category a) < decl_index (category b)) (categories analysis) \<and>
    (\<forall>c\<in>set (categories analysis). \<forall>g\<in>set (gaps c). gap_category g = category c) \<longrightarrow>
      sorted_wrt (\<lambda>a b. decl_index a < decl_index b)
        (summary_categories (gapsByCategory (targetGaps analysis body)))) \<and>
   (distinct (map category (categories analysis)) \<and>
    (\<forall>c\<in>set (categories analysis). \<forall>g\<in>set (gaps c). gap_category g = category c) \<longrightarrow>
      summary_categories (gapsByCategory (targetGaps analysis body)) =
        filter (\<lambda>k. k \<in> gap_category ` set (targetGaps analysis body))
          (map category (categories analysis))) \<and>
   (\<forall>scorer p.
      categories analysis = analyzed_categories scorer p \<and>
      (\<forall>c. \<forall>g\<in>set (gaps (scorer c)). gap_category g = c) \<longrightarrow>
        summary_categories (gapsByCategory (targetGaps analysis body)) =
          filter (\<lambda>k. k \<in> gap_category ` set (targetGaps analysis body)) CATEGORIES) \<and>
   targetGaps analysis \<lparr>req_categories = None, gapsToFix = Some [], instantOnly = None\<rparr> =
     getInstantFixGaps analysis \<and>
   targetGaps analysis \<lparr>req_categories = Some [], gapsToFix = None, instantOnly = None\<rparr> =
     getInstantFixGaps analysis"
proof -
  let ?tg = "targetGaps analysis body"
  have k: "summary_categories (gapsByCategory ?tg) = first_occurrences (map gap_category ?tg)"
    by (rule keys_gapsByCategory)
  have d: "distinct (summary_categories (gapsByCategory ?tg))"
    by (simp add: k distinct_first_occurrences)
  have g: "\<forall>(c, gs)\<in>set (gapsByCategory ?tg).
      gs = filter (\<lambda>g. gap_category g = c) ?tg \<and> gs \<noteq> []"
  proof (intro ballI, clarify)
    fix c gs assume m: "(c, gs) \<in> set (gapsByCategory ?tg)"
    then have e: "gs = filter (\<lambda>g. gap_category g = c) ?tg" by (rule groups_gapsByCategory)
    from m have "c \<in> set (summary_categories (gapsByCategory ?tg))"
      by (force simp: summary_categories_def)
    then have "c \<in> gap_category ` set ?tg" by (simp add: k set_first_occurrences)
    then have "filter (\<lambda>g. gap_category g = c) ?tg \<noteq> []" by (auto simp: filter_empty_conv)
    with e show "gs = filter (\<lambda>g. gap_category g = c) ?tg \<and> gs \<noteq> []" by simp
  qed
  have l: "\<forall>g\<in>set ?tg. get_or_empty (gapsByCategory ?tg) (gap_category g) =
      filter (\<lambda>h. gap_category h = gap_category g) ?tg"
    by (simp add: gapsByCategory_def get_or_empty_group_gaps get_or_empty_Nil)
  have f1: "\<forall>ids. ids \<noteq> [] \<longrightarrow>
      targetGaps analysis \<lparr>req_categories = None, gapsToFix = Some ids, instantOnly = None\<rparr> =
        filter (\<lambda>g. gap_id g \<in> set ids) (concat (map gaps (categories analysis)))"
    by (simp add: targetGaps_def present_nonempty_def items_def)
  have f2: "\<forall>cats. cats \<noteq> [] \<longrightarrow>
      targetGaps analysis \<lparr>req_categories = Some cats, gapsToFix = None, instantOnly = None\<rparr> =
        concat (map gaps (filter (\<lambda>c. category c \<in> set cats) (categories analysis)))"
    by (simp add: targetGaps_def present_nonempty_def items_def)
  have f3: "targetGaps analysis \<lparr>req_categories = None, gapsToFix = None, instantOnly = Some True\<rparr> =
     getInstantFixGaps analysis"
    by (simp add: targetGaps_def present_nonempty_def)
  have o: "sorted_wrt (\<lambda>a b. decl_index (category a) < decl_index (category b)) (categories analysis) \<and>
    (\<forall>c\<in>set (categories analysis). \<forall>g\<in>set (gaps c). gap_category g = category c) \<longrightarrow>
      sorted_wrt (\<lambda>a b. decl_index a < decl_index b) (summary_categories (gapsByCategory ?tg))"
    unfolding k
    by (intro impI first_occurrences_declaration_order targetGaps_in_declaration_order) simp_all
  have c: "distinct (map category (categories analysis)) \<and>
    (\<forall>c\<in>set (categories analysis). \<forall>g\<in>set (gaps c). gap_category g = category c) \<longrightarrow>
      summary_categories (gapsByCategory ?tg) =
        filter (\<lambda>k. k \<in> gap_category ` set ?tg) (map category (categories analysis))"
    unfolding k by (intro impI, elim conjE) (rule groups_follow_category_list)
  have a: "\<forall>scorer p.
      categories analysis = analyzed_categories scorer p \<and>
      (\<forall>c. \<forall>g\<in>set (gaps (scorer c)). gap_category g = c) \<longrightarrow>
        summary_categories (gapsByCategory ?tg) =
          filter (\<lambda>k. k \<in> gap_category ` set ?tg) CATEGORIES"
    unfolding k by (intro allI impI, elim conjE) (rule groups_of_analyzed_categories)
  have e1: "targetGaps analysis \<lparr>req_categories = None, gapsToFix = Some [], instantOnly = None\<rparr> =
     getInstantFixGaps analysis"
    by (simp add: targetGaps_def present_nonempty_def)
  have e2: "targetGaps analysis \<lparr>req_categories = Some [], gapsToFix = None, instantOnly = None\<rparr> =
     getInstantFixGaps analysis"
    by (simp add: targetGaps_def present_nonempty_def)
  from k d g l f1 f2 f3 o c a e1 e2 show ?thesis by (intro conjI)
qed

text \<open>
  The analyzer's category list for the platform \<open>ios\<close>, one instant-fix gap per category.
  With the instant-only flag the groups are the seven categories of the platform in
  declaration order, \<open>stateManagement\<close> first although the applicability table lists it
  last. Two gap ids select the two gaps of those ids, two categories the gaps of those
  categories, both in the order of the category list.
\<close>

theorem gapsByCategory_groups_in_first_occurrence_order_witness:
  "categories (example_analyzed PIos) = analyzed_categories example_scorer PIos \<and>
   list_all (\<lambda>c. list_all (\<lambda>g. gap_category g = c) (gaps (example_scorer c))) CATEGORIES \<and>
   distinct (map category (categories (example_analyzed PIos))) \<and>
   sorted_wrt (\<lambda>a b. decl_index (category a) < decl_index (category b))
     (categories (example_analyzed PIos)) \<and>
   list_all (\<lambda>c. list_all (\<lambda>g. gap_category g = category c) (gaps c))
     (categories (example_analyzed PIos)) \<and>
   summary_categories (gapsByCategory (targetGaps (example_analyzed PIos)
       \<lparr>req_categories = None, gapsToFix = None, instantOnly = Some True\<rparr>)) =
     filter (\<lambda>k. k \<in> gap_category ` set (targetGaps (example_analyzed PIos)
         \<lparr>req_categories = None, gapsToFix = None, instantOnly = Some True\<rparr>)) CATEGORIES \<and>
   filter (\<lambda>k. k \<in> gap_category ` set (targetGaps (example_analyzed PIos)
         \<lparr>req_categories = None, gapsToFix = None, instantOnly = Some True\<rparr>)) CATEGORIES =
     [StateManagement, DesignUx, Testing, Security, ErrorHandling, VersionControl, Deployment] \<and>
   sorted_wrt (\<lambda>a b. decl_index a < decl_index b)
     (summary_categories (gapsByCategory (targetGaps (example_analyzed PIos)
        \<lparr>req_categories = None, gapsToFix = None, instantOnly = Some True\<rparr>))) \<and>
   [''Security'', ''Testing''] \<noteq> [] \<and>
   targetGaps (example_analyzed PIos)
       \<lparr>req_categories = None, gapsToFix = Some [''Security'', ''Testing''], instantOnly = None\<rparr> =
     [gap_of ''Testing'' Testing Instant, gap_of ''Security'' Security Instant] \<and>
   [Deployment, DesignUx] \<noteq> [] \<and>
   targetGaps (example_analyzed PIos)
       \<lparr>req_categories = Some [Deployment, DesignUx], gapsToFix = None, instantOnly = None\<rparr> =
     [gap_of ''Design/UX'' DesignUx Instant, gap_of ''Deployment'' Deployment Instant]"
proof -
  let ?a = "example_analyzed PIos"
  let ?body = "\<lparr>req_categories = None, gapsToFix = None, instantOnly = Some True\<rparr>"
  note main = gapsByCategory_groups_in_first_occurrence_order [of ?a ?body]
  have cs: "categories ?a = analyzed_categories example_scorer PIos"
    by (simp add: example_analyzed_def analysis_of_def)
  have sc: "\<forall>c. \<forall>g\<in>set (gaps (example_scorer c)). gap_category g = c"
    by (simp add: example_scorer_def score_of_def gap_of_def)
  have l1: "list_all (\<lambda>c. list_all (\<lambda>g. gap_category g = c) (gaps (example_scorer c))) CATEGORIES"
    using sc by (simp add: list_all_iff)
  have h2: "\<forall>c\<in>set (categories ?a). \<forall>g\<in>set (gaps c). gap_category g = category c"
    unfolding cs by (rule analyzed_categories_gap_category [OF sc])
  have l2: "list_all (\<lambda>c. list_all (\<lambda>g. gap_category g = category c) (gaps c)) (categories ?a)"
    using h2 by (simp add: list_all_iff)
  have h1: "sorted_wrt (\<lambda>a b. decl_index (category a) < decl_index (category b)) (categories ?a)"
    unfolding cs by (rule analyzed_categories_declaration_order)
  have di: "distinct (map category (categories ?a))"
    by (simp add: cs analyzed_categories_def comp_def CATEGORIES_def)
  have a: "\<forall>scorer p.
      categories ?a = analyzed_categories scorer p \<and>
      (\<forall>c. \<forall>g\<in>set (gaps (scorer c)). gap_category g = c) \<longrightarrow>
        summary_categories (gapsByCategory (targetGaps ?a ?body)) =
          filter (\<lambda>k. k \<in> gap_category ` set (targetGaps ?a ?body)) CATEGORIES"
    using main by (elim conjE) assumption
  have o: "sorted_wrt (\<lambda>a b. decl_index (category a) < decl_index (category b)) (categories ?a) \<and>
    (\<forall>c\<in>set (categories ?a). \<forall>g\<in>set (gaps c). gap_category g = category c) \<longrightarrow>
      sorted_wrt (\<lambda>a b. decl_index a < decl_index b)
        (summary_categories (gapsByCategory (targetGaps ?a ?body)))"
    using main by (elim conjE) assumption
  have f1: "\<forall>ids. ids \<noteq> [] \<longrightarrow>
      targetGaps ?a \<lparr>req_categories = None, gapsToFix = Some ids, instantOnly = None\<rparr> =
        filter (\<lambda>g. gap_id g \<in> set ids) (concat (map gaps (categories ?a)))"
    using main by (elim conjE) assumption
  have f2: "\<forall>cats. cats \<noteq> [] \<longrightarrow>
      targetGaps ?a \<lparr>req_categories = Some cats, gapsToFix = None, instantOnly = None\<rparr> =
        concat (map gaps (filter (\<lambda>c. category c \<in> set cats) (categories ?a)))"
    using main by (elim conjE) assumption
  have r1: "summary_categories (gapsByCategory (targetGaps ?a ?body)) =
      filter (\<lambda>k. k \<in> gap_category ` set (targetGaps ?a ?body)) CATEGORIES"
    using a cs sc by blast
  have r2: "filter (\<lambda>k. k \<in> gap_category ` set (targetGaps ?a ?body)) CATEGORIES =
      [StateManagement, DesignUx, Testing, Security, ErrorHandling, VersionControl, Deployment]"
    by code_simp
  have r3: "sorted_wrt (\<lambda>a b. decl_index a < decl_index b)
      (summary_categories (gapsByCategory (targetGaps ?a ?body)))"
    using o h1 h2 by blast
  have n1: "[''Security'', ''Testing''] \<noteq> []" by simp
  have "targetGaps ?a
       \<lparr>req_categories = None, gapsToFix = Some [''Security'', ''Testing''], instantOnly = None\<rparr> =
      filter (\<lambda>g. gap_id g \<in> set [''Security'', ''Testing'']) (concat (map gaps (categories ?a)))"
    using f1 n1 by blast
  also have "\<dots> = [gap_of ''Testing'' Testing Instant, gap_of ''Security'' Security Instant]"
    by code_simp
  finally have r4: "targetGaps ?a
       \<lparr>req_categories = None, gapsToFix = Some [''Security'', ''Testing''], instantOnly = None\<rparr> =
      [gap_of ''Testing'' Testing Instant, gap_of ''Security'' Security Instant]" .
  have n2: "[Deployment, DesignUx] \<noteq> []" by simp
  have "targetGaps ?a
       \<lparr>req_categories = Some [Deployment, DesignUx], gapsToFix = None, instantOnly = None\<rparr> =
      concat (map gaps (filter (\<lambda>c. category c \<in> set [Deployment, DesignUx]) (categories ?a)))"
    using f2 n2 by blast
  also have "\<dots> = [gap_of ''Design/UX'' DesignUx Instant, gap_of ''Deployment'' Deployment Instant]"
    by code_simp
  finally have r5: "targetGaps ?a
       \<lparr>req_categories = Some [Deployment, DesignUx], gapsToFix = None, instantOnly = None\<rparr> =
      [gap_of ''Design/UX'' DesignUx Instant, gap_of ''Deployment'' Deployment Instant]" .
  from cs l1 di h1 l2 r1 r2 r3 n1 r4 n2 r5 show ?thesis by (intro conjI)
qed

text \<open>
  The claim as worded returns, for an explicit set of gap ids or of categories, exactly
  the gaps that the set matches. On the analyzer's category list for the platform \<open>web\<close>,
  one instant-fix gap per category, an empty list of gap ids matches no gap and an empty
  list of categories matches no score, yet each selects the twelve instant-fix gaps, which
  are then grouped into twelve groups.
\<close>

theorem targetGaps_empty_filter_selects_instant_counterexample:
  "categories (example_analyzed PWeb) = analyzed_categories example_scorer PWeb \<and>
   filter (\<lambda>g. gap_id g \<in> set ([] :: string list))
     (concat (map gaps (categories (example_analyzed PWeb)))) = [] \<and>
   targetGaps (example_analyzed PWeb)
       \<lparr>req_categories = None, gapsToFix = Some [], instantOnly = None\<rparr> =
     map (\<lambda>c. gap_of (CATEGORY_LABELS c) c Instant) CATEGORIES \<and>
   concat (map gaps (filter (\<lambda>c. category c \<in> set ([] :: Category list))
     (categories (example_analyzed PWeb)))) = [] \<and>
   targetGaps (example_analyzed PWeb)
       \<lparr>req_categories = Some [], gapsToFix = None, instantOnly = None\<rparr> =
     map (\<lambda>c. gap_of (CATEGORY_LABELS c) c Instant) CATEGORIES \<and>
   length (gapsByCategory (targetGaps (example_analyzed PWeb)
       \<lparr>req_categories = None, gapsToFix = Some [], instantOnly = None\<rparr>)) = 12"
  by code_simp


section \<open>Properties of the rounding to doubles\<close>

text \<open>Powers of two with a whole exponent, and the bit length of a positive whole number.\<close>

lemma pow2_powi: "pow2 e = 2 powi e"
  by (simp add: pow2_def power_int_def inverse_eq_divide power_divide)

lemma pow2_pos: "0 < pow2 e"
  by (simp add: pow2_powi zero_less_power_int)


lemma pow2_diff: "pow2 (a - b) = pow2 a / pow2 b"
  by (simp add: pow2_powi power_int_diff)

lemma pow2_mono: "a \<le> b \<Longrightarrow> pow2 a \<le> pow2 b"
  by (simp add: pow2_powi power_int_increasing)


lemma pow2_less_imp: "pow2 a < pow2 b \<Longrightarrow> a < b"
  using pow2_mono [of b a] by (cases "a < b") auto

lemma pow2_nat: "0 \<le> e \<Longrightarrow> pow2 e = 2 ^ nat e"
  by (simp add: pow2_def)


lemma bit_length_bounds_int:
  "0 < n \<Longrightarrow> 2 ^ nat (bit_length n - 1) \<le> n \<and> n < 2 ^ nat (bit_length n) \<and> 1 \<le> bit_length n"
proof (induction n rule: bit_length.induct)
  case (1 n)
  have b: "bit_length n = 1 + bit_length (n div 2)"
    using "1.prems" by (subst bit_length.simps) simp
  show ?case
  proof (cases "n = 1")
    case True
    have "bit_length (0::int) = 0" by (subst bit_length.simps) simp
    with b True show ?thesis by simp
  next
    case False
    with "1.prems" have m: "0 < n div 2" by simp
    let ?m = "n div 2" and ?b = "bit_length (n div 2)"
    from "1.IH" [OF "1.prems" m] have lo: "2 ^ nat (?b - 1) \<le> ?m" and hi: "?m < 2 ^ nat ?b"
      and one: "1 \<le> ?b" by simp_all
    have s: "nat ?b = Suc (nat (?b - 1))" using one by simp
    have "(2::int) ^ nat ?b = 2 * 2 ^ nat (?b - 1)" by (subst s) simp
    also have "\<dots> \<le> 2 * ?m" using lo by simp
    also have "\<dots> \<le> n" by simp
    finally have l: "2 ^ nat (bit_length n - 1) \<le> n" by (simp add: b)
    have s2: "nat (1 + ?b) = Suc (nat ?b)" using one by simp
    have "n < 2 * (?m + 1)" by simp
    also have "\<dots> \<le> 2 * 2 ^ nat ?b" using hi by simp
    finally have u: "n < 2 ^ nat (bit_length n)" by (simp add: b s2)
    from l u one b show ?thesis by simp
  qed
qed

lemma bit_length_bounds:
  assumes "0 < n"
  shows "pow2 (bit_length n - 1) \<le> of_int n" "of_int n < pow2 (bit_length n)"
proof -
  from bit_length_bounds_int [OF assms] have lo: "2 ^ nat (bit_length n - 1) \<le> n"
    and hi: "n < 2 ^ nat (bit_length n)" and one: "1 \<le> bit_length n" by simp_all
  have "pow2 (bit_length n - 1) = of_int (2 ^ nat (bit_length n - 1))"
    using one by (simp add: pow2_nat)
  also have "\<dots> \<le> of_int n" using lo by (simp only: of_int_le_iff)
  finally show "pow2 (bit_length n - 1) \<le> of_int n" .
  have "(of_int n :: rat) < of_int (2 ^ nat (bit_length n))" using hi by (simp only: of_int_less_iff)
  also have "\<dots> = pow2 (bit_length n)" using one by (simp add: pow2_nat)
  finally show "of_int n < pow2 (bit_length n)" .
qed

text \<open>A number other than 0 lies in its binade, and in no other.\<close>

lemma binade_bounds:
  assumes "x \<noteq> 0"
  shows "pow2 (binade x) \<le> \<bar>x\<bar>" "\<bar>x\<bar> < pow2 (binade x + 1)"
proof -
  obtain p q where pq: "quotient_of \<bar>x\<bar> = (p, q)" by (cases "quotient_of \<bar>x\<bar>")
  then have q: "0 < q" by (rule quotient_of_denom_pos)
  have x: "\<bar>x\<bar> = of_int p / of_int q" using pq by (rule quotient_of_div)
  have "0 < \<bar>x\<bar>" using assms by simp
  then have p: "0 < p" using q by (simp add: x zero_less_divide_iff)
  let ?d = "bit_length p - bit_length q"
  note P = bit_length_bounds [OF p] and Q = bit_length_bounds [OF q]
  have qr: "(0::rat) < of_int q" using q by simp
  have "\<bar>x\<bar> < pow2 (bit_length p) / of_int q"
    unfolding x using P(2) qr by (simp add: divide_strict_right_mono)
  also have "\<dots> \<le> pow2 (bit_length p) / pow2 (bit_length q - 1)"
    using Q(1) pow2_pos [of "bit_length p"] pow2_pos [of "bit_length q - 1"]
    by (simp add: frac_le)
  also have "\<dots> = pow2 (?d + 1)" by (simp add: pow2_diff [symmetric] algebra_simps)
  finally have up: "\<bar>x\<bar> < pow2 (?d + 1)" .
  have "pow2 (?d - 1) = pow2 (bit_length p - 1) / pow2 (bit_length q)"
    by (simp add: pow2_diff [symmetric] algebra_simps)
  also have "\<dots> \<le> of_int p / pow2 (bit_length q)"
    using P(1) pow2_pos [of "bit_length q"] by (simp add: divide_right_mono)
  also have "\<dots> \<le> of_int p / of_int q"
    using Q(2) qr p by (simp add: frac_le)
  finally have lo: "pow2 (?d - 1) \<le> \<bar>x\<bar>" by (simp only: x)
  have b: "binade x = (if pow2 ?d \<le> \<bar>x\<bar> then ?d else ?d - 1)"
    by (simp add: binade_def pq Let_def)
  show "pow2 (binade x) \<le> \<bar>x\<bar>" using lo by (simp add: b)
  show "\<bar>x\<bar> < pow2 (binade x + 1)" using up by (simp add: b)
qed

lemma binade_unique:
  assumes "pow2 e \<le> \<bar>x\<bar>" and "\<bar>x\<bar> < pow2 (e + 1)"
  shows "binade x = e"
proof -
  have nz: "x \<noteq> 0" using assms(1) pow2_pos [of e] by auto
  note B = binade_bounds [OF nz]
  have "pow2 e < pow2 (binade x + 1)" using assms(1) B(2) by simp
  then have "e < binade x + 1" by (rule pow2_less_imp)
  moreover have "pow2 (binade x) < pow2 (e + 1)" using assms(2) B(1) by simp
  then have "binade x < e + 1" by (rule pow2_less_imp)
  ultimately show ?thesis by simp
qed
















text \<open>
  \<open>ieee_round\<close> on numbers whose doubles are known: \<open>0.1\<close>, \<open>1/3\<close>, \<open>0.29\<close>, \<open>100 * 0.29\<close>
  (which is \<open>28.999999999999996\<close>), the first whole numbers that are not doubles, and a
  time in milliseconds.
\<close>

lemma ieee_round_known_values:
  "ieee_round (1 / 10) = 3602879701896397 / 2 ^ 55 \<and>
   ieee_round (1 / 3) = 6004799503160661 / 2 ^ 54 \<and>
   ieee_round (29 / 100) = 5224175567749775 / 2 ^ 54 \<and>
   ieee_round (100 * ieee_round (29 / 100)) = 8162774324609023 / 2 ^ 48 \<and>
   ieee_round (2 ^ 53 + 1) = 2 ^ 53 \<and>
   ieee_round (2 ^ 53 + 3) = 2 ^ 53 + 4 \<and>
   ieee_round 1700000000001 = 1700000000001"
  by code_simp


section \<open>Properties of the rate limiter\<close>

text \<open>
  Claim C8. Whenever a database operation that a \<open>rateLimit\<close> call reaches throws (the
  deletion; or, after it, the count; or, after both, with the count below the limit, the
  insertion), the call returns \<open>success = true\<close> with \<open>remaining = limit - 1\<close> and
  \<open>reset = now + windowMs\<close>, the sum as a double: it neither rejects the request nor
  raises. This holds for every identifier, limit, window and rounding.
\<close>

theorem rateLimit_fails_open:
  assumes "executeRawDelete prisma (rnd (of_int now - windowMs)) db = Inl e \<or>
     (\<exists>db1. executeRawDelete prisma (rnd (of_int now - windowMs)) db = Inr db1 \<and>
        (rateLimitCount prisma identifier (rnd (of_int now - windowMs)) db1 = Inl e \<or>
         (\<exists>n. rateLimitCount prisma identifier (rnd (of_int now - windowMs)) db1 = Inr n \<and>
              n < limit \<and> rateLimitCreate prisma identifier db1 = Inl e)))"
  shows "fst (rateLimit rnd prisma identifier limit windowMs now db) =
           \<lparr>success = True, reset = rnd (of_int now + windowMs), remaining = limit - 1\<rparr>"
proof -
  from assms consider
      (delete) "executeRawDelete prisma (rnd (of_int now - windowMs)) db = Inl e"
    | (count) db1 where "executeRawDelete prisma (rnd (of_int now - windowMs)) db = Inr db1"
        "rateLimitCount prisma identifier (rnd (of_int now - windowMs)) db1 = Inl e"
    | (create) db1 n where "executeRawDelete prisma (rnd (of_int now - windowMs)) db = Inr db1"
        "rateLimitCount prisma identifier (rnd (of_int now - windowMs)) db1 = Inr n" "n < limit"
        "rateLimitCreate prisma identifier db1 = Inl e"
    by blast
  then have "\<exists>db'. rateLimit_try rnd prisma identifier limit windowMs now db = (Inl e, db')"
  proof cases
    case delete
    then show ?thesis by (simp add: rateLimit_try_def)
  next
    case count
    then show ?thesis by (simp add: rateLimit_try_def)
  next
    case create
    then show ?thesis by (simp add: rateLimit_try_def)
  qed
  then show ?thesis by (auto simp: rateLimit_def)
qed

text \<open>
  A client that throws on the first call, and a client whose insertion throws after a
  successful deletion and count of one request against a limit of five, both with the
  rounding of doubles.
\<close>

theorem rateLimit_fails_open_witness:
  "fst (rateLimit ieee_round failing_prisma ''203.0.113.7'' 5 86400000 1700000000000 []) =
     \<lparr>success = True, reset = 1700086400000, remaining = 4\<rparr> \<and>
   fst (rateLimit ieee_round (readonly_prisma 1700000000000) ''203.0.113.7'' 5 86400000
          1700000000000 [(''203.0.113.7'', 1699999999000)]) =
     \<lparr>success = True, reset = 1700086400000, remaining = 4\<rparr>"
proof -
  have a: "executeRawDelete failing_prisma (ieee_round (of_int 1700000000000 - 86400000)) [] =
      Inl DbError"
    by (simp add: failing_prisma_def)
  have b: "executeRawDelete (readonly_prisma 1700000000000)
        (ieee_round (of_int 1700000000000 - 86400000))
        [(''203.0.113.7'', 1699999999000)] = Inr [(''203.0.113.7'', 1699999999000)]"
    "rateLimitCount (readonly_prisma 1700000000000) ''203.0.113.7''
        (ieee_round (of_int 1700000000000 - 86400000))
        [(''203.0.113.7'', 1699999999000)] = Inr 1"
    "rateLimitCreate (readonly_prisma 1700000000000) ''203.0.113.7''
        [(''203.0.113.7'', 1699999999000)] = Inl DbError"
    by code_simp+
  have s: "ieee_round (of_int 1700000000000 + 86400000) = 1700086400000"
    by code_simp
  have "fst (rateLimit ieee_round failing_prisma ''203.0.113.7'' 5 86400000 1700000000000 []) =
      \<lparr>success = True, reset = ieee_round (of_int 1700000000000 + 86400000), remaining = 5 - 1\<rparr>"
    using a by (intro rateLimit_fails_open [where rnd = ieee_round]) (intro disjI1)
  moreover have "fst (rateLimit ieee_round (readonly_prisma 1700000000000) ''203.0.113.7'' 5
        86400000 1700000000000 [(''203.0.113.7'', 1699999999000)]) =
      \<lparr>success = True, reset = ieee_round (of_int 1700000000000 + 86400000), remaining = 5 - 1\<rparr>"
    using b by (intro rateLimit_fails_open [where rnd = ieee_round]) simp
  ultimately show ?thesis by (simp only: s) simp
qed





section \<open>Properties of the analyzer's public surface\<close>

lemma category_analyzed_categories:
  "map category (analyzed_categories scorer p) =
     filter (\<lambda>c. c \<in> set (PLATFORM_CATEGORIES p)) CATEGORIES"
  by (simp add: analyzed_categories_def comp_def)

lemma PLATFORM_CATEGORIES_subset: "set (PLATFORM_CATEGORIES p) \<subseteq> set CATEGORIES"
  by (cases p) (simp_all add: CATEGORIES_def)

text \<open>
  Claim C4, on the category list modelled from the specification. For the platform
  \<open>web\<close> the result has exactly 12 category scores, one per fixed category in declaration
  order; for every platform a category that the applicability table does not list for it
  has no entry in the result at all, the categories of the result are exactly those of
  the table, and no category occurs twice.
\<close>

theorem analyzed_categories_applicable_only:
  "length (analyzed_categories scorer PWeb) = 12 \<and>
   map category (analyzed_categories scorer PWeb) = CATEGORIES \<and>
   (\<forall>p c. c \<notin> set (PLATFORM_CATEGORIES p) \<longrightarrow>
      (\<forall>s\<in>set (analyzed_categories scorer p). category s \<noteq> c)) \<and>
   (\<forall>p. category ` set (analyzed_categories scorer p) = set (PLATFORM_CATEGORIES p)) \<and>
   (\<forall>p. distinct (map category (analyzed_categories scorer p)))"
proof -
  have w: "map category (analyzed_categories scorer PWeb) = CATEGORIES"
    by (simp add: category_analyzed_categories CATEGORIES_def)
  have l: "length (analyzed_categories scorer PWeb) = 12"
    using arg_cong [OF w, of length] by (simp add: CATEGORIES_def)
  have s: "category ` set (analyzed_categories scorer p) = set (PLATFORM_CATEGORIES p)" for p
  proof -
    have "category ` set (analyzed_categories scorer p) =
        set (map category (analyzed_categories scorer p))" by simp
    also have "\<dots> = set (PLATFORM_CATEGORIES p) \<inter> set CATEGORIES"
      unfolding category_analyzed_categories by auto
    also have "\<dots> = set (PLATFORM_CATEGORIES p)"
      using PLATFORM_CATEGORIES_subset [of p] by blast
    finally show ?thesis .
  qed
  have a: "\<forall>p c. c \<notin> set (PLATFORM_CATEGORIES p) \<longrightarrow>
      (\<forall>s\<in>set (analyzed_categories scorer p). category s \<noteq> c)"
    using s by blast
  have d: "distinct (map category (analyzed_categories scorer p))" for p
    unfolding category_analyzed_categories by (intro distinct_filter) (simp add: CATEGORIES_def)
  from l w a s d show ?thesis by blast
qed

text \<open>
  The platform \<open>library\<close> with a scorer that returns score 0 for every category: Frontend
  is not applicable and has no entry, not even one with score 0; the web result has 12
  entries.
\<close>

theorem analyzed_categories_applicable_only_witness:
  "Frontend \<notin> set (PLATFORM_CATEGORIES PLibrary) \<and>
   \<not> list_ex (\<lambda>s. category s = Frontend) (analyzed_categories (\<lambda>c. score_of c 0 []) PLibrary) \<and>
   map category (analyzed_categories (\<lambda>c. score_of c 0 []) PLibrary) =
     [Testing, Security, VersionControl] \<and>
   length (analyzed_categories (\<lambda>c. score_of c 0 []) PWeb) = 12"
proof -
  have h: "Frontend \<notin> set (PLATFORM_CATEGORIES PLibrary)" by simp
  from analyzed_categories_applicable_only [of "\<lambda>c. score_of c 0 []"] have
    l: "length (analyzed_categories (\<lambda>c. score_of c 0 []) PWeb) = 12" and
    a: "\<forall>p c. c \<notin> set (PLATFORM_CATEGORIES p) \<longrightarrow>
      (\<forall>s\<in>set (analyzed_categories (\<lambda>c. score_of c 0 []) p). category s \<noteq> c)"
    by blast+
  from a h have "\<forall>s\<in>set (analyzed_categories (\<lambda>c. score_of c 0 []) PLibrary).
      category s \<noteq> Frontend" by blast
  then have n: "\<not> list_ex (\<lambda>s. category s = Frontend)
      (analyzed_categories (\<lambda>c. score_of c 0 []) PLibrary)"
    by (simp add: list_ex_iff)
  have m: "map category (analyzed_categories (\<lambda>c. score_of c 0 []) PLibrary) =
      [Testing, Security, VersionControl]"
    by (simp add: category_analyzed_categories CATEGORIES_def)
  from h n m l show ?thesis by (intro conjI)
qed

text \<open>
  Every name of a list occurs, as a contiguous piece, in the comma-separated rendering
  of the list.
\<close>

lemma sublist_join_names: "f \<in> set fs \<Longrightarrow> sublist f (join_names fs)"
proof (induction fs rule: join_names.induct)
  case 1
  then show ?case by simp
next
  case (2 g)
  then show ?case by simp
next
  case (3 g h fs)
  show ?case
  proof (cases "f = g")
    case True
    then show ?thesis by simp
  next
    case False
    with 3 have "sublist f (join_names (h # fs))" by simp
    then obtain ps ss where "join_names (h # fs) = ps @ f @ ss" by (auto simp: sublist_def)
    then have "join_names (g # h # fs) = (g @ '', '' @ ps) @ f @ ss" by simp
    then show ?thesis unfolding sublist_def by blast
  qed
qed

text \<open>
  Claim C7, on the rendering modelled from the specification. For every analysis the text
  of \<open>formatAnalysisSummary\<close> contains the literal headings "Production Readiness" and
  "Category Scores" and the name of every framework of the analysis's tech-stack
  profile.
\<close>

theorem formatAnalysisSummary_contains_headings_and_frameworks:
  "sublist ''Production Readiness'' (formatAnalysisSummary analysis) \<and>
   sublist ''Category Scores'' (formatAnalysisSummary analysis) \<and>
   (\<forall>f\<in>set (frameworks (techStack analysis)). sublist f (formatAnalysisSummary analysis))"
proof -
  let ?fs = "join_names (frameworks (techStack analysis))"
  have p: "sublist ''Production Readiness'' (formatAnalysisSummary analysis)"
    unfolding formatAnalysisSummary_def by (rule sublist_append_rightI)
  have "formatAnalysisSummary analysis =
      (''Production Readiness'' @ newline @ ''Frameworks: '' @ ?fs @ newline) @
      ''Category Scores'' @ newline"
    by (simp add: formatAnalysisSummary_def)
  then have c: "sublist ''Category Scores'' (formatAnalysisSummary analysis)"
    unfolding sublist_def by blast
  have f: "\<forall>f\<in>set (frameworks (techStack analysis)). sublist f (formatAnalysisSummary analysis)"
  proof
    fix f assume "f \<in> set (frameworks (techStack analysis))"
    then have "sublist f ?fs" by (rule sublist_join_names)
    then obtain ps ss where "?fs = ps @ f @ ss" by (auto simp: sublist_def)
    then have "formatAnalysisSummary analysis =
        (''Production Readiness'' @ newline @ ''Frameworks: '' @ ps) @ f @
        (ss @ newline @ ''Category Scores'' @ newline)"
      by (simp add: formatAnalysisSummary_def)
    then show "sublist f (formatAnalysisSummary analysis)" unfolding sublist_def by blast
  qed
  from p c f show ?thesis by (intro conjI)
qed

text \<open>
  The web example of the analyzer's test, with the frameworks next.js and react.
\<close>

theorem formatAnalysisSummary_contains_headings_and_frameworks_witness:
  "frameworks (techStack example_web_analysis) = [''next.js'', ''react''] \<and>
   sublist ''next.js'' (formatAnalysisSummary example_web_analysis) \<and>
   sublist ''react'' (formatAnalysisSummary example_web_analysis) \<and>
   sublist ''Production Readiness'' (formatAnalysisSummary example_web_analysis) \<and>
   sublist ''Category Scores'' (formatAnalysisSummary example_web_analysis)"
proof -
  have fw: "frameworks (techStack example_web_analysis) = [''next.js'', ''react'']"
    by (simp add: example_web_analysis_def analysis_of_def)
  from formatAnalysisSummary_contains_headings_and_frameworks [of example_web_analysis] have
    p: "sublist ''Production Readiness'' (formatAnalysisSummary example_web_analysis)" and
    c: "sublist ''Category Scores'' (formatAnalysisSummary example_web_analysis)" and
    f: "\<forall>f\<in>set (frameworks (techStack example_web_analysis)).
      sublist f (formatAnalysisSummary example_web_analysis)"
    by blast+
  from f have "sublist ''next.js'' (formatAnalysisSummary example_web_analysis)"
    "sublist ''react'' (formatAnalysisSummary example_web_analysis)"
    unfolding fw by simp_all
  with fw p c show ?thesis by (intro conjI)
qed

end
